theory Spec2Isabelle
  imports Complex_Main "HOL-Library.Log_Nat"
begin

section \<open>Photo compositor: a shallow embedding of app.js\<close>

text \<open>
  The program is a browser script. Its numbers are JavaScript numbers, that is IEEE 754
  binary64 numbers; they are modelled as reals (pixel counts that are integers in the
  browser as naturals). Where the script computes with fractions, in \<open>drawPanel\<close> and in
  the mean of the focal points in \<open>compose\<close>, every arithmetic operation is rounded to
  binary64 by \<open>fl\<close>; elsewhere the arithmetic is the exact one. The values NaN and
  Infinity are outside the model except where a definition says otherwise. The mutable global \<open>state\<close> object is a record that every
  function takes and returns. The adjustment objects, which the script shares by
  reference between \<open>state.adjustments\<close> and the closures of the controls, live in an
  explicit store. A thrown TypeError and a promise that never settles are error values.
\<close>

subsection \<open>Config\<close>

record layout =
  layout_id :: string
  layout_name :: string
  photoCount :: nat

definition LAYOUTS :: "layout list" where
  "LAYOUTS =
     [\<lparr>layout_id = ''2-way'', layout_name = ''2-Way Split'', photoCount = 2\<rparr>,
      \<lparr>layout_id = ''3-way'', layout_name = ''3-Way Split'', photoCount = 3\<rparr>]"

text \<open>The display label of a format (a string with a multiplication sign) is left out.\<close>

record output_format =
  width :: nat
  height :: nat
  suffix :: string

definition OUTPUT_FORMATS :: "output_format list" where
  "OUTPUT_FORMATS =
     [\<lparr>width = 2000, height = 1000, suffix = ''2x1''\<rparr>,
      \<lparr>width = 2000, height = 1500, suffix = ''4x3''\<rparr>]"

definition DIVIDER_width :: nat where
  "DIVIDER_width = 12"

definition DIVIDER_color :: string where
  "DIVIDER_color = ''#ffffff''"

subsection \<open>State\<close>

record focal =
  focal_x :: real
  focal_y :: real
  faceFound :: bool

record adjustment =
  panX :: real
  panY :: real
  scale :: real

text \<open>An entry of \<open>state.images\<close>; the File object is left out.\<close>

record image_entry =
  dataURL :: string
  qualityWarning :: "string option"

text \<open>A loaded HTMLImageElement: its source and its natural size.\<close>

record image_el =
  img_src :: string
  img_width :: nat
  img_height :: nat

text \<open>
  What a 2D context has painted. One panel is a clip rectangle and a \<open>drawImage\<close> call
  with its destination rectangle.
\<close>

record panel_draw =
  clip_x :: real
  clip_y :: real
  clip_w :: real
  clip_h :: real
  src_img :: image_el
  dest_x :: real
  dest_y :: real
  dest_w :: real
  dest_h :: real

datatype layer = Fill string real real real real | Panel panel_draw

record canvas =
  canvas_width :: nat
  canvas_height :: nat
  layers :: "layer list"

text \<open>
  The drag context. Its \<open>canvas\<close> field is the canvas of \<open>formatIndex\<close>; the bounding
  rectangle read from it comes with each event.
\<close>

record drag =
  formatIndex :: nat
  formatWidth :: nat
  panelIndex :: nat
  startMouseX :: real
  startMouseY :: real
  startPanX :: real
  startPanY :: real

text \<open>
  \<open>images\<close> and \<open>focalPoints\<close> are JavaScript arrays that are only read and written by
  index and may have holes: partial maps from the index. \<open>adjustments\<close> holds references
  into \<open>heap\<close>; \<open>nextRef\<close> is the first reference not yet allocated. \<open>adjControls\<close>
  holds, for each format and panel, the reference that the closures of the zoom slider
  and the reset button of that panel captured when the controls were built.
\<close>

record state =
  selectedLayout :: "layout option"
  images :: "nat \<Rightarrow> image_entry option"
  focalPoints :: "nat \<Rightarrow> focal option"
  imageEls :: "image_el list"
  adjustments :: "nat list list"
  heap :: "nat \<Rightarrow> adjustment"
  nextRef :: nat
  targetFocalY :: real
  composited :: bool
  canvasEls :: "canvas list"
  drag :: "drag option"
  adjControls :: "nat option list list"
  btnComposeDisabled :: bool

text \<open>The script's initial \<open>state\<close> object; the compose button starts disabled.\<close>

definition initial_state :: state where
  "initial_state =
     \<lparr>selectedLayout = None, images = (\<lambda>_. None), focalPoints = (\<lambda>_. None), imageEls = [],
      adjustments = [], heap = (\<lambda>_. \<lparr>panX = 0, panY = 0, scale = 1\<rparr>), nextRef = 0,
      targetFocalY = 0.5, composited = False, canvasEls = [], drag = None, adjControls = [],
      btnComposeDisabled = True\<rparr>"

subsection \<open>Numbers\<close>

text \<open>
  A JavaScript arithmetic operation returns the binary64 number nearest to the exact
  result, a tie going to the even significand. \<open>round_even\<close> is the rounding of a real to
  the nearest integer with that rule, \<open>expo x\<close> the exponent of a positive real (the
  integer \<open>e\<close> with \<open>2\<^sup>e \<le> x < 2\<^sup>e\<^sup>+\<^sup>1\<close>), and \<open>fl x\<close> the nearest real with a significand
  of 53 bits. The exponent is not bounded: overflow and the subnormal numbers are outside
  the model, which is the script's arithmetic for magnitudes between \<open>2\<^sup>-\<^sup>1\<^sup>0\<^sup>2\<^sup>2\<close> and
  \<open>2\<^sup>1\<^sup>0\<^sup>2\<^sup>4\<close>.
\<close>

definition round_even :: "real \<Rightarrow> int" where
  "round_even r =
     (let f = \<lfloor>r\<rfloor>
      in if r - of_int f < 1 / 2 then f
         else if 1 / 2 < r - of_int f then f + 1
         else if even f then f else f + 1)"

definition expo :: "real \<Rightarrow> int" where
  "expo x = (if 1 \<le> x then bitlen \<lfloor>x\<rfloor> - 1 else - bitlen (\<lceil>1 / x\<rceil> - 1))"

definition fl :: "real \<Rightarrow> real" where
  "fl x =
     (if x = 0 then 0
      else let u = 2 powi (expo \<bar>x\<bar> - 52)
           in sgn x * (of_int (round_even (\<bar>x\<bar> / u)) * u))"

subsection \<open>Draw one panel\<close>

text \<open>
  \<open>drawPanel\<close> returns what it paints: the clip rectangle and the arguments of
  \<open>drawImage\<close>. Every operation of the script is one rounded operation here, in the
  order in which the script evaluates it. The script divides by the natural size of a
  loaded image.
\<close>

definition drawPanel ::
  "state \<Rightarrow> image_el \<Rightarrow> real \<Rightarrow> real \<Rightarrow> real \<Rightarrow> real \<Rightarrow> nat \<Rightarrow> adjustment \<Rightarrow> panel_draw" where
  "drawPanel s img x y w h index adj =
     (let fx = (case focalPoints s index of Some f \<Rightarrow> focal_x f | None \<Rightarrow> 0.5);
          fy = (case focalPoints s index of Some f \<Rightarrow> focal_y f | None \<Rightarrow> 0.5);
          baseScale = max (fl (w / real (img_width img))) (fl (h / real (img_height img)));
          effectScale = fl (baseScale * scale adj);
          drawW = fl (real (img_width img) * effectScale);
          drawH = fl (real (img_height img) * effectScale);
          offsetX = fl (fl (0.5 * w) - fl (fx * drawW));
          offsetY = fl (fl (targetFocalY s * h) - fl (fy * drawH));
          minOffX = fl (w - drawW);
          minOffY = fl (h - drawH);
          offsetX' = min 0 (max minOffX (fl (offsetX + panX adj)));
          offsetY' = min 0 (max minOffY (fl (offsetY + panY adj)))
      in \<lparr>clip_x = x, clip_y = y, clip_w = w, clip_h = h, src_img = img,
          dest_x = fl (x + offsetX'), dest_y = fl (y + offsetY'),
          dest_w = drawW, dest_h = drawH\<rparr>)"

subsection \<open>The browser\<close>

text \<open>
  What the script asks of the browser is a parameter of the model. \<open>decodeImage\<close> is the
  outcome of assigning a data URL to the \<open>src\<close> of a new \<open>Image\<close>: an image when
  \<open>onload\<close> fires, \<open>None\<close> when \<open>onerror\<close> fires. \<open>imageData\<close> is the RGBA byte array that
  \<open>getImageData\<close> returns after the image has been drawn into the 150 by 150 canvas (it
  has \<open>4 * 150 * 150\<close> entries). \<open>detectFaces\<close> is the face detector: the bounding boxes
  it reports, or \<open>None\<close> when it throws.
\<close>

record bounding_box =
  bb_left :: real
  bb_top :: real
  bb_width :: real
  bb_height :: real

record env =
  hasFaceDetector :: bool
  decodeImage :: "string \<Rightarrow> image_el option"
  imageData :: "image_el \<Rightarrow> nat list"
  detectFaces :: "image_el \<Rightarrow> bounding_box list option"

datatype error = TypeError | NeverSettles | NotFinite | NoSuchElement

text \<open>A sharpness score: a number, or JavaScript's \<open>Infinity\<close>.\<close>

datatype score = Finite real | Infinity

fun score_less :: "score \<Rightarrow> real \<Rightarrow> bool" where
  "score_less (Finite a) b = (a < b)"
| "score_less Infinity b = False"

subsection \<open>Image quality checks\<close>

record dims =
  dims_width :: nat
  dims_height :: nat

definition getImageSize :: "env \<Rightarrow> string \<Rightarrow> dims" where
  "getImageSize e url =
     (case decodeImage e url of
        Some img \<Rightarrow> \<lparr>dims_width = img_width img, dims_height = img_height img\<rparr>
      | None \<Rightarrow> \<lparr>dims_width = 0, dims_height = 0\<rparr>)"

definition SIZE :: nat where
  "SIZE = 150"

text \<open>
  The Laplacian variance of the grey image; the two nested loops run over the interior
  pixels row by row. The rounding of the \<open>Float32Array\<close> is not modelled.
\<close>

definition laplacianVariance :: "nat list \<Rightarrow> real" where
  "laplacianVariance data =
     (let gray = (\<lambda>i. 0.299 * real (data ! (i * 4)) + 0.587 * real (data ! (i * 4 + 1))
                       + 0.114 * real (data ! (i * 4 + 2)));
          (sum, sumSq, n) =
            foldl (\<lambda>(sum, sumSq, n) i.
                     let lap = 4 * gray i - gray (i - 1) - gray (i + 1)
                                 - gray (i - SIZE) - gray (i + SIZE)
                     in (sum + lap, sumSq + lap * lap, n + 1))
                  (0, 0, 0 :: real)
                  (concat (map (\<lambda>y. map (\<lambda>x. y * SIZE + x) [1..<SIZE - 1]) [1..<SIZE - 1]))
      in sumSq / n - (sum / n)\<^sup>2)"

definition measureSharpness :: "env \<Rightarrow> string \<Rightarrow> score" where
  "measureSharpness e url =
     (case decodeImage e url of
        Some img \<Rightarrow> Finite (laplacianVariance (imageData e img))
      | None \<Rightarrow> Infinity)"

subsection \<open>Face detection\<close>

text \<open>
  The largest face wins; \<open>sort\<close> is stable, so among equal areas the first reported one.
\<close>

definition detectFace :: "env \<Rightarrow> string \<Rightarrow> focal" where
  "detectFace e url =
     (if \<not> hasFaceDetector e then \<lparr>focal_x = 0.5, focal_y = 0.5, faceFound = False\<rparr>
      else case decodeImage e url of
        None \<Rightarrow> \<lparr>focal_x = 0.5, focal_y = 0.5, faceFound = False\<rparr>
      | Some img \<Rightarrow>
          (case detectFaces e img of
             None \<Rightarrow> \<lparr>focal_x = 0.5, focal_y = 0.5, faceFound = False\<rparr>
           | Some faces \<Rightarrow>
               if faces = [] then \<lparr>focal_x = 0.5, focal_y = 0.5, faceFound = False\<rparr>
               else
                 let face = hd (sort_key (\<lambda>b. - (bb_width b * bb_height b)) faces)
                 in \<lparr>focal_x = (bb_left face + bb_width face / 2) / real (img_width img),
                     focal_y = (bb_top face + bb_height face / 2) / real (img_height img),
                     faceFound = True\<rparr>))"

subsection \<open>Upload\<close>

definition updateComposeButton :: "state \<Rightarrow> state" where
  "updateComposeButton s =
     (case selectedLayout s of
        None \<Rightarrow> s\<lparr>btnComposeDisabled := True\<rparr>
      | Some l \<Rightarrow>
          let loaded = length (filter (\<lambda>i. images s i \<noteq> None) [0..<photoCount l])
          in s\<lparr>btnComposeDisabled := (loaded < photoCount l)\<rparr>)"

text \<open>
  Removing the canvas entries from the page removes the canvases and the controls with
  their handlers.
\<close>

definition resetPreview :: "bool \<Rightarrow> state \<Rightarrow> state" where
  "resetPreview clearComposited s =
     (if clearComposited
      then s\<lparr>composited := False, imageEls := [], adjustments := [], canvasEls := [],
             adjControls := []\<rparr>
      else s)"

text \<open>The \<open>onload\<close> handler of the file reader; \<open>url\<close> is the data URL it has read.\<close>

definition loadImageFile :: "env \<Rightarrow> string \<Rightarrow> nat \<Rightarrow> state \<Rightarrow> state" where
  "loadImageFile e url index s =
     (let focal = detectFace e url;
          dims = getImageSize e url;
          sharpness = measureSharpness e url;
          isTooSmall = (dims_width dims > 0 \<and> max (dims_width dims) (dims_height dims) < 1500);
          isBlurry = score_less sharpness 100;
          qualityWarning = (if isTooSmall then Some ''low resolution''
                            else if isBlurry then Some ''may look soft''
                            else None);
          s1 = s\<lparr>images := (images s)(index \<mapsto> \<lparr>dataURL = url, qualityWarning = qualityWarning\<rparr>)\<rparr>;
          s2 = s1\<lparr>focalPoints := (focalPoints s1)(index \<mapsto> focal)\<rparr>
      in resetPreview True (updateComposeButton s2))"

definition selectLayout :: "layout \<Rightarrow> state \<Rightarrow> state" where
  "selectLayout l s =
     (let s1 = (case selectedLayout s of
                  Some l0 \<Rightarrow> if photoCount l0 \<noteq> photoCount l
                             then s\<lparr>images := (\<lambda>_. None), focalPoints := (\<lambda>_. None)\<rparr> else s
                | None \<Rightarrow> s);
          s2 = s1\<lparr>selectedLayout := Some l\<rparr>
      in resetPreview True (updateComposeButton s2))"

subsection \<open>Rendering\<close>

text \<open>
  Filling a rectangle that covers the whole canvas with an opaque colour leaves nothing of
  what was painted before.
\<close>

definition fillRect :: "string \<Rightarrow> real \<Rightarrow> real \<Rightarrow> real \<Rightarrow> real \<Rightarrow> canvas \<Rightarrow> canvas" where
  "fillRect color x y w h c =
     (if x \<le> 0 \<and> y \<le> 0 \<and> real (canvas_width c) \<le> x + w \<and> real (canvas_height c) \<le> y + h
      then c\<lparr>layers := [Fill color x y w h]\<rparr>
      else c\<lparr>layers := layers c @ [Fill color x y w h]\<rparr>)"

text \<open>
  The loop of \<open>renderForFormat\<close>. Reading \<open>.width\<close> of a missing image or \<open>.scale\<close> of a
  missing adjustment is a TypeError.
\<close>

function panels_loop ::
  "state \<Rightarrow> nat \<Rightarrow> real \<Rightarrow> real \<Rightarrow> nat \<Rightarrow> nat \<Rightarrow> real \<Rightarrow> canvas \<Rightarrow> error + canvas" where
  "panels_loop s fi slotW h count i x c =
     (if i < count then
        let x = (if 0 < i then x + real DIVIDER_width else x) in
        if i < length (imageEls s) \<and> fi < length (adjustments s)
             \<and> i < length (adjustments s ! fi)
        then panels_loop s fi slotW h count (Suc i) (x + slotW)
               (c\<lparr>layers := layers c @
                    [Panel (drawPanel s (imageEls s ! i) x 0 slotW h i
                              (heap s (adjustments s ! fi ! i)))]\<rparr>)
        else Inl TypeError
      else Inr c)"
  by pat_completeness auto
termination
  by (relation "measure (\<lambda>(s, fi, slotW, h, count, i, x, c). count - i)") auto

declare panels_loop.simps [simp del]

definition renderForFormat :: "nat \<Rightarrow> output_format \<Rightarrow> state \<Rightarrow> error + state" where
  "renderForFormat fi fmt s =
     (if \<not> fi < length (canvasEls s) then Inr s
      else case selectedLayout s of
        None \<Rightarrow> Inl TypeError
      | Some l \<Rightarrow>
          let count = photoCount l;
              slotW = real_of_int \<lfloor>(real (width fmt) - real DIVIDER_width * (real count - 1))
                                     / real count\<rfloor>;
              c = fillRect DIVIDER_color 0 0 (real (width fmt)) (real (height fmt))
                    (canvasEls s ! fi)
          in (case panels_loop s fi slotW (real (height fmt)) count 0 0 c of
                Inl err \<Rightarrow> Inl err
              | Inr c' \<Rightarrow> Inr (s\<lparr>canvasEls := list_update (canvasEls s) fi c'\<rparr>)))"

fun renderAll :: "(nat \<times> output_format) list \<Rightarrow> state \<Rightarrow> error + state" where
  "renderAll [] s = Inr s"
| "renderAll ((fi, fmt) # rest) s =
     (case renderForFormat fi fmt s of Inl err \<Rightarrow> Inl err | Inr s' \<Rightarrow> renderAll rest s')"

definition renderAllCanvases :: "state \<Rightarrow> error + state" where
  "renderAllCanvases s = renderAll (zip [0..<length OUTPUT_FORMATS] OUTPUT_FORMATS) s"

subsection \<open>Compositing\<close>

text \<open>
  \<open>Array.from({ length: count }, () => ({ panX: 0, panY: 0, scale: 1.0 }))\<close>: every
  call of the arrow function allocates a new object.
\<close>

primrec allocRow ::
  "nat \<Rightarrow> (nat \<Rightarrow> adjustment) \<times> nat \<Rightarrow> nat list \<times> ((nat \<Rightarrow> adjustment) \<times> nat)" where
  "allocRow 0 hp = ([], hp)"
| "allocRow (Suc n) hp =
     (let r = snd hp;
          (refs, hp') = allocRow n ((fst hp)(r := \<lparr>panX = 0, panY = 0, scale = 1\<rparr>), Suc r)
      in (r # refs, hp'))"

text \<open>\<open>OUTPUT_FORMATS.map(() => Array.from(...))\<close>: one row for each format.\<close>

primrec allocRows ::
  "output_format list \<Rightarrow> nat \<Rightarrow> (nat \<Rightarrow> adjustment) \<times> nat
     \<Rightarrow> nat list list \<times> ((nat \<Rightarrow> adjustment) \<times> nat)" where
  "allocRows [] count hp = ([], hp)"
| "allocRows (f # fs) count hp =
     (let (row, hp1) = allocRow count hp;
          (rows, hp2) = allocRows fs count hp1
      in (row # rows, hp2))"

text \<open>
  The part of \<open>compose\<close> before its \<open>await\<close>, for a selected layout. \<open>resetPreview(false)\<close>
  touches only parts of the page that are not modelled. The \<open>reduce\<close> adds the y
  components from left to right, starting from 0, each addition rounded; the literals
  \<open>0.25\<close> and \<open>0.65\<close> are the binary64 numbers nearest to them, of which the first is
  exact.
\<close>

definition compose_begin :: "layout \<Rightarrow> state \<Rightarrow> state" where
  "compose_begin l s =
     (let s1 = resetPreview False (s\<lparr>btnComposeDisabled := True\<rparr>);
          count = photoCount l;
          avgY = fl (foldl (\<lambda>a v. fl (a + v)) 0
                       (map (\<lambda>i. case focalPoints s1 i of Some f \<Rightarrow> focal_y f | None \<Rightarrow> 0.5)
                          [0..<count])
                     / real count);
          s2 = s1\<lparr>targetFocalY := max 0.25 (min (fl 0.65) avgY)\<rparr>;
          (rows, hp) = allocRows OUTPUT_FORMATS count (heap s2, nextRef s2)
      in s2\<lparr>adjustments := rows, heap := fst hp, nextRef := snd hp\<rparr>)"

text \<open>
  One promise of the \<open>Promise.all\<close> in \<open>compose\<close>: reading \<open>.dataURL\<close> of a missing entry
  throws inside the executor, which rejects the promise; the image has an \<open>onload\<close>
  handler only, so a data URL that does not decode leaves the promise pending for ever.
\<close>

definition slotImage :: "env \<Rightarrow> state \<Rightarrow> nat \<Rightarrow> error + image_el" where
  "slotImage e s i =
     (case images s i of
        None \<Rightarrow> Inl TypeError
      | Some im \<Rightarrow>
          (case decodeImage e (dataURL im) of
             None \<Rightarrow> Inl NeverSettles
           | Some img \<Rightarrow> Inr img))"

text \<open>\<open>Promise.all\<close>: rejected when a promise rejects, else pending when one is pending.\<close>

definition loadImageEls :: "env \<Rightarrow> nat \<Rightarrow> state \<Rightarrow> error + image_el list" where
  "loadImageEls e count s =
     (let ps = map (slotImage e s) [0..<count]
      in if Inl TypeError \<in> set ps then Inl TypeError
         else if Inl NeverSettles \<in> set ps then Inl NeverSettles
         else Inr (concat (map (\<lambda>p. case p of Inr img \<Rightarrow> [img] | Inl _ \<Rightarrow> []) ps)))"

text \<open>
  The controls of one format. Each panel's slider and reset button close over the
  adjustment object found at \<open>state.adjustments[fi][i]\<close> (\<open>None\<close>: \<open>undefined\<close>).
\<close>

definition buildAdjControls :: "nat \<Rightarrow> state \<Rightarrow> error + nat option list" where
  "buildAdjControls fi s =
     (case selectedLayout s of
        None \<Rightarrow> Inl TypeError
      | Some l \<Rightarrow>
          if fi < length (adjustments s)
          then Inr (map (\<lambda>i. if i < length (adjustments s ! fi)
                              then Some (adjustments s ! fi ! i) else None)
                      [0..<photoCount l])
          else if photoCount l = 0 then Inr [] else Inl TypeError)"

fun buildEntries :: "(nat \<times> output_format) list \<Rightarrow> state \<Rightarrow> error + state" where
  "buildEntries [] s = Inr s"
| "buildEntries ((fi, fmt) # rest) s =
     (case buildAdjControls fi s of
        Inl err \<Rightarrow> Inl err
      | Inr ctl \<Rightarrow>
          buildEntries rest
            (s\<lparr>adjControls := adjControls s @ [ctl],
               canvasEls := canvasEls s @
                 [\<lparr>canvas_width = width fmt, canvas_height = height fmt, layers = []\<rparr>]\<rparr>))"

definition buildCanvasEntries :: "state \<Rightarrow> error + state" where
  "buildCanvasEntries s =
     buildEntries (zip [0..<length OUTPUT_FORMATS] OUTPUT_FORMATS)
       (s\<lparr>canvasEls := [], adjControls := []\<rparr>)"

text \<open>
  \<open>compose\<close>, run to its end without another event in between. \<open>Inl NeverSettles\<close>: the
  function stays suspended at its \<open>await\<close>.
\<close>

definition compose :: "env \<Rightarrow> state \<Rightarrow> error + state" where
  "compose e s =
     (case selectedLayout s of
        None \<Rightarrow> Inr s
      | Some l \<Rightarrow>
          let s1 = compose_begin l s
          in (case loadImageEls e (photoCount l) s1 of
                Inl err \<Rightarrow> Inl err
              | Inr els \<Rightarrow>
                  (case buildCanvasEntries (s1\<lparr>imageEls := els\<rparr>) of
                     Inl err \<Rightarrow> Inl err
                   | Inr s2 \<Rightarrow>
                       (case renderAllCanvases (s2\<lparr>composited := True\<rparr>) of
                          Inl err \<Rightarrow> Inl err
                        | Inr s3 \<Rightarrow> Inr (s3\<lparr>btnComposeDisabled := False\<rparr>)))))"

subsection \<open>Canvas drag interaction\<close>

function getPanelIndex_loop :: "real \<Rightarrow> real \<Rightarrow> nat \<Rightarrow> nat \<Rightarrow> real \<Rightarrow> int" where
  "getPanelIndex_loop cx slotW count i cursor =
     (if i < count then
        let cursor = (if 0 < i then cursor + real DIVIDER_width else cursor) in
        if cx \<ge> cursor \<and> cx < cursor + slotW then int i
        else getPanelIndex_loop cx slotW count (Suc i) (cursor + slotW)
      else - 1)"
  by pat_completeness auto
termination
  by (relation "measure (\<lambda>(cx, slotW, count, i, cursor). count - i)") auto

declare getPanelIndex_loop.simps [simp del]

text \<open>
  \<open>rectWidth\<close> is the width of the canvas's bounding rectangle. When it is 0 the script's
  \<open>cx\<close> is infinite or NaN, every comparison of the loop is false and the result is -1.
\<close>

definition getPanelIndex :: "real \<Rightarrow> real \<Rightarrow> nat \<Rightarrow> state \<Rightarrow> error + int" where
  "getPanelIndex cssX rectWidth fmtWidth s =
     (case selectedLayout s of
        None \<Rightarrow> Inl TypeError
      | Some l \<Rightarrow>
          let scale = real fmtWidth / rectWidth;
              cx = cssX * scale;
              count = photoCount l;
              slotW = real_of_int \<lfloor>(real fmtWidth - real DIVIDER_width * (real count - 1))
                                     / real count\<rfloor>
          in Inr (if rectWidth = 0 then - 1 else getPanelIndex_loop cx slotW count 0 0))"

text \<open>The \<open>mousedown\<close> handler that \<open>attachCanvasDrag\<close> puts on the canvas of format \<open>fi\<close>.\<close>

definition canvas_mousedown ::
  "nat \<Rightarrow> output_format \<Rightarrow> real \<Rightarrow> real \<Rightarrow> real \<Rightarrow> real \<Rightarrow> state \<Rightarrow> error + state" where
  "canvas_mousedown fi fmt clientX clientY rectLeft rectWidth s =
     (if \<not> composited s then Inr s
      else case getPanelIndex (clientX - rectLeft) rectWidth (width fmt) s of
        Inl err \<Rightarrow> Inl err
      | Inr pidx \<Rightarrow>
          if pidx < 0 then Inr s
          else if fi < length (adjustments s) \<and> nat pidx < length (adjustments s ! fi)
          then let adj = heap s (adjustments s ! fi ! nat pidx)
               in Inr (s\<lparr>drag := Some \<lparr>formatIndex = fi, formatWidth = width fmt,
                                       panelIndex = nat pidx,
                                       startMouseX = clientX, startMouseY = clientY,
                                       startPanX = panX adj, startPanY = panY adj\<rparr>\<rparr>)
          else Inl TypeError)"

text \<open>
  The \<open>mousemove\<close> handler of the window. With a bounding rectangle of width 0 the pan
  would be infinite or NaN, which an adjustment of the model cannot hold.
\<close>

definition window_mousemove :: "real \<Rightarrow> real \<Rightarrow> real \<Rightarrow> state \<Rightarrow> error + state" where
  "window_mousemove clientX clientY rectWidth s =
     (case drag s of
        None \<Rightarrow> Inr s
      | Some d \<Rightarrow>
          if formatIndex d < length (adjustments s)
               \<and> panelIndex d < length (adjustments s ! formatIndex d)
          then if rectWidth = 0 then Inl NotFinite
               else
                 let cssToCanvas = real (formatWidth d) / rectWidth;
                     r = adjustments s ! formatIndex d ! panelIndex d;
                     adj = (heap s r)
                             \<lparr>panX := startPanX d + (clientX - startMouseX d) * cssToCanvas,
                              panY := startPanY d + (clientY - startMouseY d) * cssToCanvas\<rparr>;
                     s1 = s\<lparr>heap := (heap s)(r := adj)\<rparr>
                 in if formatIndex d < length OUTPUT_FORMATS
                    then renderForFormat (formatIndex d) (OUTPUT_FORMATS ! formatIndex d) s1
                    else if formatIndex d < length (canvasEls s1) then Inl TypeError
                    else Inr s1
          else Inl TypeError)"

definition window_mouseup :: "state \<Rightarrow> state" where
  "window_mouseup s = (case drag s of Some d \<Rightarrow> s\<lparr>drag := None\<rparr> | None \<Rightarrow> s)"

subsection \<open>Per-canvas adjustment controls\<close>

text \<open>
  The handlers of one panel's zoom slider and reset button; \<open>adj\<close>, \<open>fi\<close> and \<open>fmt\<close> are
  what their closures captured in \<open>buildAdjControls\<close>, \<open>v\<close> is the parsed slider value.
\<close>

definition slider_input ::
  "nat option \<Rightarrow> nat \<Rightarrow> output_format \<Rightarrow> real \<Rightarrow> state \<Rightarrow> error + state" where
  "slider_input adj fi fmt v s =
     (case adj of
        None \<Rightarrow> Inl TypeError
      | Some r \<Rightarrow>
          renderForFormat fi fmt
            (s\<lparr>heap := (heap s)(r := (heap s r)\<lparr>scale := v, panX := 0, panY := 0\<rparr>)\<rparr>))"

definition reset_click :: "nat option \<Rightarrow> nat \<Rightarrow> output_format \<Rightarrow> state \<Rightarrow> error + state" where
  "reset_click adj fi fmt s =
     (case adj of
        None \<Rightarrow> Inl TypeError
      | Some r \<Rightarrow>
          renderForFormat fi fmt
            (s\<lparr>heap := (heap s)(r := (heap s r)\<lparr>panX := 0, panY := 0, scale := 1\<rparr>)\<rparr>))"

subsection \<open>Interaction with a preview\<close>

text \<open>
  The events a user can send on the composed preview. A press on the canvas of a format
  carries the pointer position and the left edge and width of the canvas's bounding
  rectangle; a move carries the pointer position and the width of the bounding rectangle
  of the dragged canvas. An event on an element that is not on the page cannot happen.
\<close>

datatype event =
  MouseDown nat real real real real
| MouseMove real real real
| MouseUp
| SliderInput nat nat real
| ResetClick nat nat

fun fire :: "event \<Rightarrow> state \<Rightarrow> error + state" where
  "fire (MouseDown fi clientX clientY rectLeft rectWidth) s =
     (if fi < length OUTPUT_FORMATS \<and> fi < length (canvasEls s)
      then canvas_mousedown fi (OUTPUT_FORMATS ! fi) clientX clientY rectLeft rectWidth s
      else Inl NoSuchElement)"
| "fire (MouseMove clientX clientY rectWidth) s = window_mousemove clientX clientY rectWidth s"
| "fire MouseUp s = Inr (window_mouseup s)"
| "fire (SliderInput fi i v) s =
     (if fi < length OUTPUT_FORMATS \<and> fi < length (adjControls s)
           \<and> i < length (adjControls s ! fi)
      then slider_input (adjControls s ! fi ! i) fi (OUTPUT_FORMATS ! fi) v s
      else Inl NoSuchElement)"
| "fire (ResetClick fi i) s =
     (if fi < length OUTPUT_FORMATS \<and> fi < length (adjControls s)
           \<and> i < length (adjControls s ! fi)
      then reset_click (adjControls s ! fi ! i) fi (OUTPUT_FORMATS ! fi) s
      else Inl NoSuchElement)"

fun run :: "event list \<Rightarrow> state \<Rightarrow> error + state" where
  "run [] s = Inr s"
| "run (ev # evs) s = (case fire ev s of Inl err \<Rightarrow> Inl err | Inr s' \<Rightarrow> run evs s')"

subsection \<open>Notions used in the statements\<close>

text \<open>
  The slot width as the specification words it:
  \<open>floor((formatWidth - dividerWidth * (panelCount - 1)) / panelCount)\<close>.
\<close>

definition slotWidth :: "nat \<Rightarrow> nat \<Rightarrow> real" where
  "slotWidth fmtWidth count =
     real_of_int \<lfloor>(real fmtWidth - real DIVIDER_width * (real count - 1)) / real count\<rfloor>"

text \<open>The adjustments of one format, read through the store.\<close>

definition adjustmentRow :: "state \<Rightarrow> nat \<Rightarrow> adjustment list" where
  "adjustmentRow s fi = map (heap s) (adjustments s ! fi)"

text \<open>The format whose adjustment an event writes, if it writes one.\<close>

fun affected_format :: "state \<Rightarrow> event \<Rightarrow> nat option" where
  "affected_format s (MouseMove clientX clientY rectWidth) = map_option formatIndex (drag s)"
| "affected_format s (SliderInput fi i v) = Some fi"
| "affected_format s (ResetClick fi i) = Some fi"
| "affected_format s (MouseDown fi clientX clientY rectLeft rectWidth) = None"
| "affected_format s MouseUp = None"

text \<open>
  The shape of the state when \<open>compose\<close> has finished for layout \<open>l\<close>: one row of
  adjustment objects for each format, one object for each panel, no object twice; the
  images loaded; one canvas of the declared size for each format; and the controls
  holding the objects of \<open>state.adjustments\<close>.
\<close>

definition composed :: "layout \<Rightarrow> state \<Rightarrow> bool" where
  "composed l s \<longleftrightarrow>
     selectedLayout s = Some l \<and> composited s
     \<and> map length (adjustments s) = map (\<lambda>f. photoCount l) OUTPUT_FORMATS
     \<and> distinct (concat (adjustments s))
     \<and> length (imageEls s) = photoCount l
     \<and> map (\<lambda>c. (canvas_width c, canvas_height c)) (canvasEls s)
         = map (\<lambda>f. (width f, height f)) OUTPUT_FORMATS
     \<and> adjControls s = map (map Some) (adjustments s)"

text \<open>
  What one rendering of a format leaves on its canvas: the background fill, then the
  panels from left to right, panel \<open>j\<close> at \<open>x = j * (slot width + divider width)\<close>.
\<close>

definition paintedLayers :: "state \<Rightarrow> nat \<Rightarrow> output_format \<Rightarrow> nat \<Rightarrow> layer list" where
  "paintedLayers s fi fmt count =
     Fill DIVIDER_color 0 0 (real (width fmt)) (real (height fmt)) #
     map (\<lambda>j. Panel (drawPanel s (imageEls s ! j)
                        (real j * (slotWidth (width fmt) count + real DIVIDER_width)) 0
                        (slotWidth (width fmt) count) (real (height fmt)) j
                        (heap s (adjustments s ! fi ! j))))
       [0..<count]"

text \<open>
  Every canvas shows its format as one rendering paints it from the format's own row of
  adjustments.
\<close>

definition painted :: "layout \<Rightarrow> state \<Rightarrow> bool" where
  "painted l s \<longleftrightarrow>
     (\<forall>fi<length OUTPUT_FORMATS.
        layers (canvasEls s ! fi) = paintedLayers s fi (OUTPUT_FORMATS ! fi) (photoCount l))"

subsection \<open>A session used in the examples\<close>

text \<open>
  A browser with a face detector that finds no face, in which the data URL \<open>photo\<close>
  decodes to an image of 3000 by 2000 pixels, \<open>thumb\<close> to one of 800 by 600 pixels, and
  nothing else decodes; and a state in which the 2-way layout is selected and both slots
  hold \<open>photo\<close>, without a tag and with the focal point at the centre.
\<close>

definition example_env :: env where
  "example_env =
     \<lparr>hasFaceDetector = True,
      decodeImage = (\<lambda>url. if url = ''photo''
                           then Some \<lparr>img_src = ''photo'', img_width = 3000, img_height = 2000\<rparr>
                           else if url = ''thumb''
                           then Some \<lparr>img_src = ''thumb'', img_width = 800, img_height = 600\<rparr>
                           else None),
      imageData = (\<lambda>img. replicate (4 * SIZE * SIZE) 0),
      detectFaces = (\<lambda>img. Some [])\<rparr>"

definition example_state :: state where
  "example_state =
     initial_state
       \<lparr>selectedLayout := Some (LAYOUTS ! 0),
        images := (\<lambda>i. if i < 2 then Some \<lparr>dataURL = ''photo'', qualityWarning = None\<rparr>
                        else None),
        focalPoints := (\<lambda>i. if i < 2
                             then Some \<lparr>focal_x = 0.5, focal_y = 0.5, faceFound = False\<rparr>
                             else None),
        btnComposeDisabled := False\<rparr>"

text \<open>
  A photo of 3000 by 4000 pixels, and a state with a selected layout whose slots hold the
  photo of the example browser with given focal y components.
\<close>

definition tall_photo :: image_el where
  "tall_photo = \<lparr>img_src = ''tall'', img_width = 3000, img_height = 4000\<rparr>"

definition faces :: "layout \<Rightarrow> real list \<Rightarrow> state" where
  "faces l ys =
     initial_state
       \<lparr>selectedLayout := Some l,
        images := (\<lambda>i. if i < length ys then Some \<lparr>dataURL = ''photo'', qualityWarning = None\<rparr>
                        else None),
        focalPoints := (\<lambda>i. if i < length ys
                             then Some \<lparr>focal_x = 0.5, focal_y = ys ! i, faceFound = True\<rparr>
                             else None),
        btnComposeDisabled := False\<rparr>"

section \<open>Binary64 rounding\<close>

text \<open>
  \<open>round_even\<close> is within a half of its argument, \<open>expo\<close> is the binary exponent, and
  \<open>fl\<close> is within half a unit in the last place of its argument; the significand that
  \<open>fl\<close> keeps is an integer between \<open>2\<^sup>5\<^sup>2\<close> and \<open>2\<^sup>5\<^sup>3\<close>.
\<close>

lemma round_even_near: "\<bar>of_int (round_even r) - r\<bar> \<le> 1 / 2"
  unfolding round_even_def Let_def by (auto; linarith)

lemma expo_bounds:
  assumes "0 < x"
  shows "2 powi expo x \<le> x \<and> x < 2 powi (expo x + 1)"
proof (cases "1 \<le> x")
  case True
  define n where "n = \<lfloor>x\<rfloor>"
  have n: "0 < n" using True by (simp add: n_def)
  from bitlen_bounds [OF n] have b: "2 ^ nat (bitlen n - 1) \<le> n" "n < 2 ^ nat (bitlen n)" by simp_all
  have bl: "1 \<le> bitlen n"
  proof (rule ccontr)
    assume "\<not> 1 \<le> bitlen n"
    then have "nat (bitlen n) = 0" by simp
    with b(2) n show False by simp
  qed
  have e: "expo x = bitlen n - 1" using True by (simp add: expo_def n_def)
  have "(2::real) powi (bitlen n - 1) = 2 ^ nat (bitlen n - 1)" using bl by (simp add: power_int_def)
  also have "\<dots> = of_int (2 ^ nat (bitlen n - 1))" by simp
  also have "\<dots> \<le> of_int n" using b(1) by (simp only: of_int_le_iff)
  also have "\<dots> \<le> x" by (simp add: n_def)
  finally have lo: "2 powi expo x \<le> x" by (simp add: e)
  have "n + 1 \<le> 2 ^ nat (bitlen n)" using b(2) by simp
  then have "(of_int (n + 1) :: real) \<le> of_int (2 ^ nat (bitlen n))" by (simp only: of_int_le_iff)
  moreover have "x < of_int (n + 1)" unfolding n_def by linarith
  ultimately have "x < 2 ^ nat (bitlen n)" by simp
  also have "\<dots> = 2 powi (bitlen n)" using bl by (simp add: power_int_def)
  finally have "x < 2 powi (expo x + 1)" by (simp add: e)
  with lo show ?thesis ..
next
  case False
  define c where "c = \<lceil>1 / x\<rceil>"
  define m where "m = bitlen (c - 1)"
  have y: "1 < 1 / x" using False assms by simp
  have c2: "2 \<le> c" unfolding c_def using y by linarith
  then have n: "0 < c - 1" by simp
  from bitlen_bounds [OF n] have b: "2 ^ nat (m - 1) \<le> c - 1" "c - 1 < 2 ^ nat m" by (simp_all add: m_def)
  have bl: "1 \<le> m"
  proof (rule ccontr)
    assume "\<not> 1 \<le> m"
    then have "nat m = 0" by simp
    with b(2) n show False by simp
  qed
  have e: "expo x = - m" using False by (simp add: expo_def m_def c_def)
  have "(of_int (c - 1) :: real) < 1 / x" unfolding c_def by linarith
  moreover have "(of_int (2 ^ nat (m - 1)) :: real) \<le> of_int (c - 1)" using b(1) by (simp only: of_int_le_iff)
  ultimately have lo: "2 ^ nat (m - 1) < 1 / x" by simp
  have "c \<le> 2 ^ nat m" using b(2) by simp
  then have "(of_int c :: real) \<le> of_int (2 ^ nat m)" by (simp only: of_int_le_iff)
  then have "(of_int c :: real) \<le> 2 ^ nat m" by simp
  moreover have "1 / x \<le> of_int c" unfolding c_def by linarith
  ultimately have hi: "1 / x \<le> 2 ^ nat m" by linarith
  have p1: "(2::real) powi (- m) = 1 / 2 ^ nat m" using bl by (simp add: power_int_def field_simps)
  have p2: "(2::real) powi (1 - m) = 1 / 2 ^ nat (m - 1)" using bl
    by (simp add: power_int_def field_simps nat_diff_distrib)
  have "1 / 2 ^ nat m \<le> x" using hi assms by (simp add: field_simps)
  moreover have "x < 1 / 2 ^ nat (m - 1)" using lo assms by (simp add: field_simps)
  ultimately show ?thesis by (simp add: e p1 p2)
qed

lemma fl_near:
  "\<bar>fl x - x\<bar> \<le> 2 powi (expo \<bar>x\<bar> - 53)"
proof (cases "x = 0")
  case True then show ?thesis by (simp add: fl_def)
next
  case False
  define u :: real where "u = 2 powi (expo \<bar>x\<bar> - 52)"
  have u: "0 < u" by (simp add: u_def)
  have "fl x = sgn x * (of_int (round_even (\<bar>x\<bar> / u)) * u)" using False by (simp add: fl_def u_def Let_def)
  moreover have "x = sgn x * (\<bar>x\<bar> / u * u)" using u by (simp add: sgn_mult_abs)
  ultimately have "fl x - x = sgn x * ((of_int (round_even (\<bar>x\<bar> / u)) - \<bar>x\<bar> / u) * u)"
    by (simp add: algebra_simps)
  then have "\<bar>fl x - x\<bar> = \<bar>of_int (round_even (\<bar>x\<bar> / u)) - \<bar>x\<bar> / u\<bar> * u"
    using False u by (simp add: abs_mult abs_sgn_eq)
  also have "\<dots> \<le> 1 / 2 * u" using round_even_near [of "\<bar>x\<bar> / u"] u by (intro mult_right_mono) simp_all
  also have "\<dots> = 2 powi (expo \<bar>x\<bar> - 53)"
    unfolding u_def by (simp add: power_int_diff)
  finally show ?thesis .
qed

lemma round_even_floor: "round_even r = \<lfloor>r\<rfloor> \<or> round_even r = \<lfloor>r\<rfloor> + 1"
  by (simp add: round_even_def Let_def)

lemma fl_significand:
  assumes "x \<noteq> 0"
  shows "2 ^ 52 \<le> round_even (\<bar>x\<bar> / 2 powi (expo \<bar>x\<bar> - 52))
       \<and> round_even (\<bar>x\<bar> / 2 powi (expo \<bar>x\<bar> - 52)) \<le> 2 ^ 53"
proof -
  define e where "e = expo \<bar>x\<bar>"
  define r where "r = \<bar>x\<bar> / 2 powi (e - 52)"
  from assms have "0 < \<bar>x\<bar>" by simp
  from expo_bounds [OF this] have b: "2 powi e \<le> \<bar>x\<bar>" "\<bar>x\<bar> < 2 powi (e + 1)"
    by (simp_all add: e_def)
  have u: "(0::real) < 2 powi (e - 52)" by simp
  have "2 powi e / 2 powi (e - 52) = (2::real) ^ 52"
    by (simp add: power_int_diff)
  with b(1) u have lo: "2 ^ 52 \<le> r"
    unfolding r_def by (metis divide_right_mono less_imp_le)
  have "2 powi (e + 1) / 2 powi (e - 52) = (2::real) ^ 53"
    by (simp add: power_int_diff power_int_add)
  with b(2) u have hi: "r < 2 ^ 53"
    unfolding r_def by (metis divide_strict_right_mono)
  from lo have "(of_int (2 ^ 52) :: real) \<le> r" by simp
  then have flo: "2 ^ 52 \<le> \<lfloor>r\<rfloor>" by (simp only: le_floor_iff)
  from hi have "r < of_int (2 ^ 53)" by simp
  then have "\<lfloor>r\<rfloor> < 2 ^ 53" by (simp only: floor_less_iff)
  with flo round_even_floor [of r] show ?thesis
    unfolding r_def e_def by auto
qed

section \<open>Panel geometry\<close>

text \<open>The steps of \<open>drawPanel\<close>, one rounded operation each.\<close>

lemma drawPanel_steps:
  assumes "(case focalPoints s index of Some f \<Rightarrow> focal_x f | None \<Rightarrow> 0.5) = fx"
    and "(case focalPoints s index of Some f \<Rightarrow> focal_y f | None \<Rightarrow> 0.5) = fy"
    and "max (fl (w / real (img_width img))) (fl (h / real (img_height img))) = baseScale"
    and "fl (baseScale * scale adj) = effectScale"
    and "fl (real (img_width img) * effectScale) = drawW"
    and "fl (real (img_height img) * effectScale) = drawH"
    and "fl (fl (0.5 * w) - fl (fx * drawW)) = offsetX"
    and "fl (fl (targetFocalY s * h) - fl (fy * drawH)) = offsetY"
    and "fl (w - drawW) = minOffX"
    and "fl (h - drawH) = minOffY"
    and "min 0 (max minOffX (fl (offsetX + panX adj))) = offsetX'"
    and "min 0 (max minOffY (fl (offsetY + panY adj))) = offsetY'"
  shows "drawPanel s img x y w h index adj
           = \<lparr>clip_x = x, clip_y = y, clip_w = w, clip_h = h, src_img = img,
              dest_x = fl (x + offsetX'), dest_y = fl (y + offsetY'),
              dest_w = drawW, dest_h = drawH\<rparr>"
  unfolding drawPanel_def Let_def assms ..

text \<open>
  A photo of 3000 by 4000 pixels in the first panel of the two-panel layout of the
  2000 by 1000 format (the panel is 994 by 1000), with the adjustment, the focal point
  and the target Y that a state has before any interaction.
\<close>

lemma tall_photo_panel:
  "drawPanel initial_state tall_photo 0 0 994 1000 0 \<lparr>panX = 0, panY = 0, scale = 1\<rparr>
     = \<lparr>clip_x = 0, clip_y = 0, clip_w = 994, clip_h = 1000, src_img = tall_photo,
        dest_x = 0, dest_y = - (1430831131612501 / 2 ^ 43),
        dest_w = 994 - 1 / 2 ^ 43, dest_h = 5828877642716501 / 2 ^ 42\<rparr>"
proof -
  let ?adj = "\<lparr>panX = 0, panY = 0, scale = 1\<rparr>"
  have fx: "(case focalPoints initial_state 0 of Some f \<Rightarrow> focal_x f | None \<Rightarrow> 0.5) = 1 / 2"
    and fy: "(case focalPoints initial_state 0 of Some f \<Rightarrow> focal_y f | None \<Rightarrow> 0.5) = 1 / 2"
    by (simp_all add: initial_state_def)
  have sel: "real (img_width tall_photo) = 3000" "real (img_height tall_photo) = 4000"
    "scale ?adj = 1" "panX ?adj = 0" "panY ?adj = 0" "targetFocalY initial_state = 1 / 2"
    by (simp_all add: tall_photo_def initial_state_def)
  have base: "max (fl (994 / real (img_width tall_photo))) (fl (1000 / real (img_height tall_photo)))
                = 5968770706141697 / 2 ^ 54"
    unfolding sel by code_simp
  have eff: "fl (5968770706141697 / 2 ^ 54 * scale ?adj) = 5968770706141697 / 2 ^ 54"
    unfolding sel by code_simp
  have dw: "fl (real (img_width tall_photo) * (5968770706141697 / 2 ^ 54)) = 994 - 1 / 2 ^ 43"
    unfolding sel by code_simp
  have dh: "fl (real (img_height tall_photo) * (5968770706141697 / 2 ^ 54))
              = 5828877642716501 / 2 ^ 42"
    unfolding sel by code_simp
  have ox: "fl (fl (0.5 * 994) - fl (1 / 2 * (994 - 1 / 2 ^ 43))) = 1 / 2 ^ 44"
    unfolding sel by code_simp
  have oy: "fl (fl (targetFocalY initial_state * 1000) - fl (1 / 2 * (5828877642716501 / 2 ^ 42)))
              = - (1430831131612501 / 2 ^ 43)"
    unfolding sel by code_simp
  have mx: "fl (994 - (994 - 1 / 2 ^ 43)) = 1 / 2 ^ 43"
    unfolding sel by code_simp
  have my: "fl (1000 - 5828877642716501 / 2 ^ 42) = - (1430831131612501 / 2 ^ 42)"
    unfolding sel by code_simp
  have cx: "min 0 (max (1 / 2 ^ 43) (fl (1 / 2 ^ 44 + panX ?adj))) = 0"
    unfolding sel by code_simp
  have cy: "min 0 (max (- (1430831131612501 / 2 ^ 42)) (fl (- (1430831131612501 / 2 ^ 43) + panY ?adj)))
              = - (1430831131612501 / 2 ^ 43)"
    unfolding sel by code_simp
  have px: "fl (0 + 0) = 0" and py: "fl (0 + - (1430831131612501 / 2 ^ 43)) = - (1430831131612501 / 2 ^ 43)"
    by code_simp+
  show ?thesis
    unfolding drawPanel_steps [OF fx fy base eff dw dh ox oy mx my cx cy] px py ..
qed

text \<open>
  Claim C4, evaluated where the script misses it. For the photo of 3000 by 4000 pixels
  in the panel of 994 by 1000 at zoom 1, \<open>baseScale\<close> is the binary64 number nearest to
  \<open>994 / 3000\<close> and \<open>img.width * effectScale\<close> rounds to \<open>994 - 2\<^sup>-\<^sup>4\<^sup>3\<close>: the width that
  \<open>drawPanel\<close> passes to \<open>drawImage\<close> is less than the width of the panel, so the drawn
  image does not cover the panel. The height, 1325.33, covers it.
\<close>

theorem C4_cover_missed:
  "dest_w (drawPanel initial_state tall_photo 0 0 994 1000 0 \<lparr>panX = 0, panY = 0, scale = 1\<rparr>)
     = 994 - 1 / 2 ^ 43
   \<and> dest_w (drawPanel initial_state tall_photo 0 0 994 1000 0 \<lparr>panX = 0, panY = 0, scale = 1\<rparr>)
     < clip_w (drawPanel initial_state tall_photo 0 0 994 1000 0 \<lparr>panX = 0, panY = 0, scale = 1\<rparr>)
   \<and> clip_h (drawPanel initial_state tall_photo 0 0 994 1000 0 \<lparr>panX = 0, panY = 0, scale = 1\<rparr>)
     \<le> dest_h (drawPanel initial_state tall_photo 0 0 994 1000 0 \<lparr>panX = 0, panY = 0, scale = 1\<rparr>)"
  unfolding tall_photo_panel by simp

text \<open>
  Claim C1, evaluated where the script misses it. For the same photo, panel and
  adjustment, the lower bound of the clamp, \<open>w - drawW\<close>, is \<open>2\<^sup>-\<^sup>4\<^sup>3\<close>, above the upper bound
  0; the clamped horizontal offset (the x coordinate passed to \<open>drawImage\<close> minus the
  left edge of the panel, which is 0) is 0, below \<open>w - drawW\<close>. The vertical offset is
  within its bounds.
\<close>

theorem C1_offset_below_bound:
  "dest_x (drawPanel initial_state tall_photo 0 0 994 1000 0 \<lparr>panX = 0, panY = 0, scale = 1\<rparr>)
     - 0 = 0
   \<and> 994 - dest_w (drawPanel initial_state tall_photo 0 0 994 1000 0
                     \<lparr>panX = 0, panY = 0, scale = 1\<rparr>) = 1 / 2 ^ 43
   \<and> dest_x (drawPanel initial_state tall_photo 0 0 994 1000 0 \<lparr>panX = 0, panY = 0, scale = 1\<rparr>)
       - 0
     < 994 - dest_w (drawPanel initial_state tall_photo 0 0 994 1000 0
                       \<lparr>panX = 0, panY = 0, scale = 1\<rparr>)
   \<and> 1000 - dest_h (drawPanel initial_state tall_photo 0 0 994 1000 0
                       \<lparr>panX = 0, panY = 0, scale = 1\<rparr>)
     \<le> dest_y (drawPanel initial_state tall_photo 0 0 994 1000 0
                  \<lparr>panX = 0, panY = 0, scale = 1\<rparr>) - 0
   \<and> dest_y (drawPanel initial_state tall_photo 0 0 994 1000 0 \<lparr>panX = 0, panY = 0, scale = 1\<rparr>)
       - 0 \<le> 0"
  unfolding tall_photo_panel by simp

section \<open>Allocation and rendering\<close>

lemma allocRow_refs: "fst (allocRow n hp) = [snd hp..<snd hp + n]"
proof (induction n arbitrary: hp)
  case 0
  then show ?case by simp
next
  case (Suc n)
  have "fst (allocRow (Suc n) hp)
          = snd hp # fst (allocRow n ((fst hp)(snd hp := \<lparr>panX = 0, panY = 0, scale = 1\<rparr>), Suc (snd hp)))"
    by (simp add: Let_def case_prod_beta)
  also have "\<dots> = snd hp # [Suc (snd hp)..<Suc (snd hp) + n]"
    by (simp only: Suc.IH snd_conv)
  also have "\<dots> = [snd hp..<snd hp + Suc n]"
    by (simp add: upt_conv_Cons)
  finally show ?case .
qed

lemma allocRow_next: "snd (snd (allocRow n hp)) = snd hp + n"
  by (induction n arbitrary: hp) (simp_all add: Let_def case_prod_beta)

lemma allocRow_heap:
  "fst (snd (allocRow n hp)) k =
     (if snd hp \<le> k \<and> k < snd hp + n then \<lparr>panX = 0, panY = 0, scale = 1\<rparr> else fst hp k)"
  by (induction n arbitrary: hp) (simp_all add: Let_def case_prod_beta)

lemma allocRows_next: "snd (snd (allocRows fs count hp)) = snd hp + length fs * count"
  by (induction fs arbitrary: hp) (simp_all add: Let_def case_prod_beta allocRow_next)

lemma allocRows_heap:
  "fst (snd (allocRows fs count hp)) k =
     (if snd hp \<le> k \<and> k < snd hp + length fs * count
      then \<lparr>panX = 0, panY = 0, scale = 1\<rparr> else fst hp k)"
  by (induction fs arbitrary: hp)
     (simp_all add: Let_def case_prod_beta allocRow_next allocRow_heap)

lemma allocRows_length: "length (fst (allocRows fs count hp)) = length fs"
  by (induction fs arbitrary: hp) (simp_all add: Let_def case_prod_beta)

lemma allocRows_nth:
  "j < length fs \<Longrightarrow>
     fst (allocRows fs count hp) ! j = [snd hp + j * count..<snd hp + j * count + count]"
proof (induction fs arbitrary: hp j)
  case Nil
  then show ?case by simp
next
  case (Cons f fs)
  show ?case
  proof (cases j)
    case 0
    then show ?thesis by (simp add: Let_def case_prod_beta allocRow_refs)
  next
    case (Suc j')
    with Cons.prems have "j' < length fs" by simp
    from Cons.IH [OF this, of "snd (allocRow count hp)"] Suc
    show ?thesis by (simp add: Let_def case_prod_beta allocRow_next add.assoc)
  qed
qed

lemma allocRows_concat:
  "concat (fst (allocRows fs count hp)) = [snd hp..<snd hp + length fs * count]"
proof (induction fs arbitrary: hp)
  case Nil
  then show ?case by simp
next
  case (Cons f fs)
  have "[snd hp..<snd hp + count] @ [snd hp + count..<snd hp + count + length fs * count]
          = [snd hp..<snd hp + count + length fs * count]"
    by (metis le_add1 upt_add_eq_append)
  then show ?case
    by (simp add: Let_def case_prod_beta allocRow_refs allocRow_next Cons.IH add.assoc)
qed

lemma fillRect_dims:
  "canvas_width (fillRect col x y w h c) = canvas_width c"
  "canvas_height (fillRect col x y w h c) = canvas_height c"
  by (simp_all add: fillRect_def)

lemma panels_loop_dims:
  "panels_loop s fi slotW h count i x c = Inr c' \<Longrightarrow>
     canvas_width c' = canvas_width c \<and> canvas_height c' = canvas_height c"
proof (induction s fi slotW h count i x c rule: panels_loop.induct)
  case (1 s fi slotW h count i x c)
  show ?case
  proof (cases "i < count")
    case False
    with "1.prems" show ?thesis by (simp add: panels_loop.simps)
  next
    case True
    show ?thesis
    proof (cases "i < length (imageEls s) \<and> fi < length (adjustments s)
                    \<and> i < length (adjustments s ! fi)")
      case False
      with True "1.prems" show ?thesis
        by (subst (asm) panels_loop.simps) (simp add: Let_def)
    next
      case ok: True
      from "1.prems" True ok
      have "panels_loop s fi slotW h count (Suc i)
              ((if 0 < i then x + real DIVIDER_width else x) + slotW)
              (c\<lparr>layers := layers c @
                   [Panel (drawPanel s (imageEls s ! i)
                             (if 0 < i then x + real DIVIDER_width else x) 0 slotW h i
                             (heap s (adjustments s ! fi ! i)))]\<rparr>) = Inr c'"
        by (subst (asm) panels_loop.simps) (simp add: Let_def)
      from "1.IH" [OF True refl ok this]
      show ?thesis by simp
    qed
  qed
qed

lemma panels_loop_closed:
  assumes "count \<le> length (imageEls s)" "fi < length (adjustments s)"
    and "count \<le> length (adjustments s ! fi)"
  shows "panels_loop s fi slotW h count i x c =
     Inr (c\<lparr>layers := layers c @
            map (\<lambda>j. Panel (drawPanel s (imageEls s ! j)
                               ((if 0 < i then x + real DIVIDER_width else x)
                                  + real (j - i) * (slotW + real DIVIDER_width))
                               0 slotW h j (heap s (adjustments s ! fi ! j))))
              [i..<count]\<rparr>)"
  using assms
proof (induction s fi slotW h count i x c rule: panels_loop.induct)
  case (1 s fi slotW h count i x c)
  show ?case
  proof (cases "i < count")
    case False
    then show ?thesis by (simp add: panels_loop.simps)
  next
    case True
    define x0 where "x0 = (if 0 < i then x + real DIVIDER_width else x)"
    define p where "p = Panel (drawPanel s (imageEls s ! i) x0 0 slotW h i
                         (heap s (adjustments s ! fi ! i)))"
    have ok: "i < length (imageEls s) \<and> fi < length (adjustments s)
                \<and> i < length (adjustments s ! fi)"
      using True "1.prems" by simp
    have shift: "x0 + slotW + real DIVIDER_width + real (j - Suc i) * (slotW + real DIVIDER_width)
          = x0 + real (j - i) * (slotW + real DIVIDER_width)" if "Suc i \<le> j" for j
    proof -
      from that have "real (j - i) = real (j - Suc i) + 1" by simp
      then show ?thesis by (simp add: algebra_simps)
    qed
    have step: "panels_loop s fi slotW h count i x c =
        panels_loop s fi slotW h count (Suc i) (x0 + slotW) (c\<lparr>layers := layers c @ [p]\<rparr>)"
      using True ok by (subst panels_loop.simps) (simp add: Let_def x0_def p_def)
    have ih: "panels_loop s fi slotW h count (Suc i) (x0 + slotW) (c\<lparr>layers := layers c @ [p]\<rparr>)
        = Inr (c\<lparr>layers := (layers c @ [p]) @
            map (\<lambda>j. Panel (drawPanel s (imageEls s ! j)
                               (x0 + slotW + real DIVIDER_width
                                  + real (j - Suc i) * (slotW + real DIVIDER_width))
                               0 slotW h j (heap s (adjustments s ! fi ! j))))
              [Suc i..<count]\<rparr>)"
      using "1.IH" [OF True refl ok "1.prems"] by (simp add: x0_def p_def)
    have m: "map (\<lambda>j. Panel (drawPanel s (imageEls s ! j)
                               (x0 + slotW + real DIVIDER_width
                                  + real (j - Suc i) * (slotW + real DIVIDER_width))
                               0 slotW h j (heap s (adjustments s ! fi ! j))))
              [Suc i..<count]
        = map (\<lambda>j. Panel (drawPanel s (imageEls s ! j)
                               (x0 + real (j - i) * (slotW + real DIVIDER_width))
                               0 slotW h j (heap s (adjustments s ! fi ! j))))
              [Suc i..<count]"
    proof (rule map_cong [OF refl])
      fix j assume "j \<in> set [Suc i..<count]"
      then have "Suc i \<le> j" by simp
      from shift [OF this]
      show "Panel (drawPanel s (imageEls s ! j)
                               (x0 + slotW + real DIVIDER_width
                                  + real (j - Suc i) * (slotW + real DIVIDER_width))
                               0 slotW h j (heap s (adjustments s ! fi ! j)))
        = Panel (drawPanel s (imageEls s ! j)
                               (x0 + real (j - i) * (slotW + real DIVIDER_width))
                               0 slotW h j (heap s (adjustments s ! fi ! j)))"
        by (simp only:)
    qed
    have u: "[i..<count] = i # [Suc i..<count]"
      using True by (simp add: upt_conv_Cons)
    have hd: "Panel (drawPanel s (imageEls s ! i)
                 (x0 + real (i - i) * (slotW + real DIVIDER_width))
                 0 slotW h i (heap s (adjustments s ! fi ! i))) = p"
      by (simp add: p_def)
    show ?thesis
      unfolding step ih m u x0_def [symmetric] list.map hd by simp
  qed
qed

lemma composed_shape:
  assumes "composed l s" "fi < length OUTPUT_FORMATS"
  shows "fi < length (canvasEls s)"
    and "canvas_width (canvasEls s ! fi) = width (OUTPUT_FORMATS ! fi)"
    and "canvas_height (canvasEls s ! fi) = height (OUTPUT_FORMATS ! fi)"
    and "fi < length (adjustments s)"
    and "length (adjustments s ! fi) = photoCount l"
proof -
  from assms(1) have c: "map (\<lambda>c. (canvas_width c, canvas_height c)) (canvasEls s)
         = map (\<lambda>f. (width f, height f)) OUTPUT_FORMATS"
    and a: "map length (adjustments s) = map (\<lambda>f. photoCount l) OUTPUT_FORMATS"
    by (simp_all add: composed_def)
  from c have lc: "length (canvasEls s) = length OUTPUT_FORMATS"
    by (rule map_eq_imp_length_eq)
  from a have la: "length (adjustments s) = length OUTPUT_FORMATS"
    by (rule map_eq_imp_length_eq)
  show "fi < length (canvasEls s)" using lc assms(2) by simp
  show "fi < length (adjustments s)" using la assms(2) by simp
  have "map (\<lambda>c. (canvas_width c, canvas_height c)) (canvasEls s) ! fi
         = map (\<lambda>f. (width f, height f)) OUTPUT_FORMATS ! fi"
    by (simp only: c)
  then have "(canvas_width (canvasEls s ! fi), canvas_height (canvasEls s ! fi))
         = (width (OUTPUT_FORMATS ! fi), height (OUTPUT_FORMATS ! fi))"
    using lc assms(2) by simp
  then show "canvas_width (canvasEls s ! fi) = width (OUTPUT_FORMATS ! fi)"
    and "canvas_height (canvasEls s ! fi) = height (OUTPUT_FORMATS ! fi)"
    by simp_all
  have "map length (adjustments s) ! fi = map (\<lambda>f. photoCount l) OUTPUT_FORMATS ! fi"
    by (simp only: a)
  then show "length (adjustments s ! fi) = photoCount l"
    using la assms(2) by simp
qed

lemma renderForFormat_frame:
  assumes "renderForFormat fi fmt s = Inr s'"
  shows "\<exists>c. s' = s\<lparr>canvasEls := list_update (canvasEls s) fi c\<rparr>
           \<and> (fi < length (canvasEls s) \<longrightarrow>
                canvas_width c = canvas_width (canvasEls s ! fi)
                \<and> canvas_height c = canvas_height (canvasEls s ! fi))"
proof (cases "fi < length (canvasEls s)")
  case False
  with assms have "s' = s" by (simp add: renderForFormat_def)
  with False show ?thesis
    by (intro exI [of _ "\<lparr>canvas_width = 0, canvas_height = 0, layers = []\<rparr>"]) (simp add: list_update_beyond)
next
  case True
  from assms True obtain l where l: "selectedLayout s = Some l"
    by (cases "selectedLayout s") (simp_all add: renderForFormat_def)
  define c0 where "c0 = fillRect DIVIDER_color 0 0 (real (width fmt)) (real (height fmt))
                    (canvasEls s ! fi)"
  from assms True l obtain c' where
    loop: "panels_loop s fi (real_of_int \<lfloor>(real (width fmt) - real DIVIDER_width
              * (real (photoCount l) - 1)) / real (photoCount l)\<rfloor>)
             (real (height fmt)) (photoCount l) 0 0 c0 = Inr c'"
    and s': "s' = s\<lparr>canvasEls := list_update (canvasEls s) fi c'\<rparr>"
    by (auto simp: renderForFormat_def Let_def c0_def split: sum.splits)
  from panels_loop_dims [OF loop]
  have "canvas_width c' = canvas_width (canvasEls s ! fi)
      \<and> canvas_height c' = canvas_height (canvasEls s ! fi)"
    by (simp add: c0_def fillRect_dims)
  with s' show ?thesis by blast
qed

lemma renderForFormat_composed:
  assumes "composed l s" "fi < length OUTPUT_FORMATS"
  shows "renderForFormat fi (OUTPUT_FORMATS ! fi) s =
     Inr (s\<lparr>canvasEls := list_update (canvasEls s) fi
              ((canvasEls s ! fi)
                 \<lparr>layers := paintedLayers s fi (OUTPUT_FORMATS ! fi) (photoCount l)\<rparr>)\<rparr>)"
proof -
  let ?fmt = "OUTPUT_FORMATS ! fi"
  note sh = composed_shape [OF assms]
  from assms(1) have l: "selectedLayout s = Some l" and
    im: "length (imageEls s) = photoCount l" by (simp_all add: composed_def)
  have fill: "fillRect DIVIDER_color 0 0 (real (width ?fmt)) (real (height ?fmt)) (canvasEls s ! fi)
      = (canvasEls s ! fi)\<lparr>layers := [Fill DIVIDER_color 0 0 (real (width ?fmt)) (real (height ?fmt))]\<rparr>"
    by (simp add: fillRect_def sh)
  have loop: "panels_loop s fi (slotWidth (width ?fmt) (photoCount l)) (real (height ?fmt))
        (photoCount l) 0 0
        ((canvasEls s ! fi)\<lparr>layers := [Fill DIVIDER_color 0 0 (real (width ?fmt)) (real (height ?fmt))]\<rparr>)
      = Inr ((canvasEls s ! fi)\<lparr>layers := paintedLayers s fi ?fmt (photoCount l)\<rparr>)"
    by (subst panels_loop_closed) (simp_all add: im sh paintedLayers_def)
  show ?thesis
    unfolding renderForFormat_def slotWidth_def [symmetric]
    by (simp add: sh l Let_def fill loop)
qed

lemma distinct_concat_row:
  "distinct (concat xss) \<Longrightarrow> i < length xss \<Longrightarrow> distinct (xss ! i)"
proof (induction xss arbitrary: i)
  case Nil
  then show ?case by simp
next
  case (Cons xs rest)
  then show ?case by (cases i) simp_all
qed

lemma distinct_concat_rows:
  assumes "distinct (concat xss)" "i < length xss" "j < length xss" "i \<noteq> j"
  shows "set (xss ! i) \<inter> set (xss ! j) = {}"
  using assms
proof (induction xss arbitrary: i j)
  case Nil
  then show ?case by simp
next
  case (Cons xs rest)
  from Cons.prems(1) have d: "distinct (concat rest)"
    and disj: "set xs \<inter> set (concat rest) = {}" by simp_all
  have sub: "set (rest ! k) \<subseteq> set (concat rest)" if "k < length rest" for k
  proof -
    from that have "rest ! k \<in> set rest" by (rule nth_mem)
    then show ?thesis by auto
  qed
  show ?case
  proof (cases i)
    case 0
    with Cons.prems obtain j' where j: "j = Suc j'" "j' < length rest"
      by (cases j) simp_all
    from sub [OF j(2)] disj 0 j(1) show ?thesis by auto
  next
    case (Suc i')
    show ?thesis
    proof (cases j)
      case 0
      from Suc Cons.prems have "i' < length rest" by simp
      from sub [OF this] disj 0 Suc show ?thesis by auto
    next
      case j: (Suc j')
      from Cons.IH [OF d, of i' j'] Cons.prems Suc j show ?thesis by simp
    qed
  qed
qed

lemma map_list_update_same:
  assumes "i < length xs \<longrightarrow> f c = f (xs ! i)"
  shows "map f (list_update xs i c) = map f xs"
proof (cases "i < length xs")
  case True
  with assms have "f c = map f xs ! i" by simp
  then show ?thesis by (simp add: map_update)
next
  case False
  then show ?thesis by (simp add: list_update_beyond)
qed

lemma renderForFormat_changes:
  assumes "renderForFormat fi fmt s = Inr s'"
  shows "\<exists>c. s' = s\<lparr>canvasEls := list_update (canvasEls s) fi c\<rparr>
           \<and> map (\<lambda>c. (canvas_width c, canvas_height c)) (list_update (canvasEls s) fi c)
               = map (\<lambda>c. (canvas_width c, canvas_height c)) (canvasEls s)"
proof -
  from renderForFormat_frame [OF assms] obtain c where
    c: "s' = s\<lparr>canvasEls := list_update (canvasEls s) fi c\<rparr>"
    and d: "fi < length (canvasEls s) \<longrightarrow>
                canvas_width c = canvas_width (canvasEls s ! fi)
                \<and> canvas_height c = canvas_height (canvasEls s ! fi)"
    by blast
  have "map (\<lambda>c. (canvas_width c, canvas_height c)) (list_update (canvasEls s) fi c)
               = map (\<lambda>c. (canvas_width c, canvas_height c)) (canvasEls s)"
    by (rule map_list_update_same) (use d in simp)
  with c show ?thesis by blast
qed

section \<open>What the handlers change\<close>

lemma slider_input_result:
  assumes "slider_input (Some r) fi fmt v s = Inr s'"
  shows "\<exists>c. s' = s\<lparr>heap := (heap s)(r := (heap s r)\<lparr>scale := v, panX := 0, panY := 0\<rparr>),
                     canvasEls := list_update (canvasEls s) fi c\<rparr>
           \<and> map (\<lambda>c. (canvas_width c, canvas_height c)) (list_update (canvasEls s) fi c)
               = map (\<lambda>c. (canvas_width c, canvas_height c)) (canvasEls s)"
proof -
  from assms have "renderForFormat fi fmt
      (s\<lparr>heap := (heap s)(r := (heap s r)\<lparr>scale := v, panX := 0, panY := 0\<rparr>)\<rparr>) = Inr s'"
    by (simp add: slider_input_def)
  from renderForFormat_changes [OF this] show ?thesis by simp
qed

lemma reset_click_result:
  assumes "reset_click (Some r) fi fmt s = Inr s'"
  shows "\<exists>c. s' = s\<lparr>heap := (heap s)(r := (heap s r)\<lparr>panX := 0, panY := 0, scale := 1\<rparr>),
                     canvasEls := list_update (canvasEls s) fi c\<rparr>
           \<and> map (\<lambda>c. (canvas_width c, canvas_height c)) (list_update (canvasEls s) fi c)
               = map (\<lambda>c. (canvas_width c, canvas_height c)) (canvasEls s)"
proof -
  from assms have "renderForFormat fi fmt
      (s\<lparr>heap := (heap s)(r := (heap s r)\<lparr>panX := 0, panY := 0, scale := 1\<rparr>)\<rparr>) = Inr s'"
    by (simp add: reset_click_def)
  from renderForFormat_changes [OF this] show ?thesis by simp
qed

lemma window_mousemove_result:
  assumes "window_mousemove clientX clientY rectWidth s = Inr s'" "drag s = Some d"
  shows "rectWidth \<noteq> 0 \<and> formatIndex d < length (adjustments s)
       \<and> panelIndex d < length (adjustments s ! formatIndex d)
       \<and> (\<exists>c. s' = s\<lparr>heap := (heap s)
                   (adjustments s ! formatIndex d ! panelIndex d :=
                      (heap s (adjustments s ! formatIndex d ! panelIndex d))
                        \<lparr>panX := startPanX d
                                  + (clientX - startMouseX d) * (real (formatWidth d) / rectWidth),
                         panY := startPanY d
                                  + (clientY - startMouseY d) * (real (formatWidth d) / rectWidth)\<rparr>),
                     canvasEls := list_update (canvasEls s) (formatIndex d) c\<rparr>
           \<and> map (\<lambda>c. (canvas_width c, canvas_height c))
                 (list_update (canvasEls s) (formatIndex d) c)
               = map (\<lambda>c. (canvas_width c, canvas_height c)) (canvasEls s))"
proof -
  let ?r = "adjustments s ! formatIndex d ! panelIndex d"
  let ?s1 = "s\<lparr>heap := (heap s)
                   (?r := (heap s ?r)
                        \<lparr>panX := startPanX d
                                  + (clientX - startMouseX d) * (real (formatWidth d) / rectWidth),
                         panY := startPanY d
                                  + (clientY - startMouseY d) * (real (formatWidth d) / rectWidth)\<rparr>)\<rparr>"
  from assms have rng: "formatIndex d < length (adjustments s)
       \<and> panelIndex d < length (adjustments s ! formatIndex d)"
    by (cases "formatIndex d < length (adjustments s)
                 \<and> panelIndex d < length (adjustments s ! formatIndex d)")
       (simp_all add: window_mousemove_def)
  from assms rng have nz: "rectWidth \<noteq> 0"
    by (cases "rectWidth = 0") (simp_all add: window_mousemove_def)
  show ?thesis
  proof (cases "formatIndex d < length OUTPUT_FORMATS")
    case True
    with assms rng nz have
      "renderForFormat (formatIndex d) (OUTPUT_FORMATS ! formatIndex d) ?s1 = Inr s'"
      by (simp add: window_mousemove_def Let_def)
    from renderForFormat_changes [OF this] rng nz show ?thesis by simp
  next
    case False
    with assms rng nz have nc: "\<not> formatIndex d < length (canvasEls s)" and "s' = ?s1"
      by (simp_all add: window_mousemove_def Let_def split: if_splits)
    then have "s' = ?s1\<lparr>canvasEls := list_update (canvasEls s) (formatIndex d) (canvasEls s ! 0)\<rparr>
       \<and> map (\<lambda>c. (canvas_width c, canvas_height c))
                 (list_update (canvasEls s) (formatIndex d) (canvasEls s ! 0))
               = map (\<lambda>c. (canvas_width c, canvas_height c)) (canvasEls s)"
      by (simp add: list_update_beyond)
    with rng nz show ?thesis by (intro conjI exI [of _ "canvasEls s ! 0"]) simp_all
  qed
qed

lemma canvas_mousedown_result:
  assumes "canvas_mousedown fi fmt clientX clientY rectLeft rectWidth s = Inr s'"
  shows "s' = s \<or>
     (\<exists>pidx. getPanelIndex (clientX - rectLeft) rectWidth (width fmt) s = Inr pidx
        \<and> 0 \<le> pidx \<and> composited s
        \<and> fi < length (adjustments s) \<and> nat pidx < length (adjustments s ! fi)
        \<and> s' = s\<lparr>drag := Some \<lparr>formatIndex = fi, formatWidth = width fmt,
                                 panelIndex = nat pidx,
                                 startMouseX = clientX, startMouseY = clientY,
                                 startPanX = panX (heap s (adjustments s ! fi ! nat pidx)),
                                 startPanY = panY (heap s (adjustments s ! fi ! nat pidx))\<rparr>\<rparr>)"
  using assms
  by (auto simp: canvas_mousedown_def Let_def split: if_splits sum.splits)

lemma composed_control:
  assumes "composed l s" "fi < length (adjControls s)" "i < length (adjControls s ! fi)"
  shows "fi < length (adjustments s) \<and> i < length (adjustments s ! fi)
       \<and> adjControls s ! fi ! i = Some (adjustments s ! fi ! i)"
proof -
  from assms(1) have c: "adjControls s = map (map Some) (adjustments s)"
    by (simp add: composed_def)
  from assms(2) c have fi: "fi < length (adjustments s)" by simp
  with c have row: "adjControls s ! fi = map Some (adjustments s ! fi)" by simp
  with assms(3) have i: "i < length (adjustments s ! fi)" by simp
  with row fi show ?thesis by simp
qed

lemma composed_changes:
  assumes "composed l s"
    and "map (\<lambda>c. (canvas_width c, canvas_height c)) cs
           = map (\<lambda>c. (canvas_width c, canvas_height c)) (canvasEls s)"
  shows "composed l (s\<lparr>heap := hp, canvasEls := cs, drag := dg\<rparr>)"
  using assms by (simp add: composed_def)

lemma fire_changes:
  assumes "fire ev s = Inr s'"
  shows "\<exists>hp cs dg. s' = s\<lparr>heap := hp, canvasEls := cs, drag := dg\<rparr>
           \<and> map (\<lambda>c. (canvas_width c, canvas_height c)) cs
               = map (\<lambda>c. (canvas_width c, canvas_height c)) (canvasEls s)"
proof (cases ev)
  case (MouseDown fi clientX clientY rectLeft rectWidth)
  with assms have
    "canvas_mousedown fi (OUTPUT_FORMATS ! fi) clientX clientY rectLeft rectWidth s = Inr s'"
    by (simp split: if_splits)
  from canvas_mousedown_result [OF this]
  have "\<exists>dg. s' = s\<lparr>drag := dg\<rparr>"
  proof
    assume "s' = s"
    then have "s' = s\<lparr>drag := drag s\<rparr>" by simp
    then show ?thesis ..
  next
    assume "\<exists>pidx. getPanelIndex (clientX - rectLeft) rectWidth (width (OUTPUT_FORMATS ! fi)) s
                = Inr pidx
        \<and> 0 \<le> pidx \<and> composited s
        \<and> fi < length (adjustments s) \<and> nat pidx < length (adjustments s ! fi)
        \<and> s' = s\<lparr>drag := Some \<lparr>formatIndex = fi, formatWidth = width (OUTPUT_FORMATS ! fi),
                                 panelIndex = nat pidx,
                                 startMouseX = clientX, startMouseY = clientY,
                                 startPanX = panX (heap s (adjustments s ! fi ! nat pidx)),
                                 startPanY = panY (heap s (adjustments s ! fi ! nat pidx))\<rparr>\<rparr>"
    then show ?thesis by blast
  qed
  then obtain dg where "s' = s\<lparr>drag := dg\<rparr>" ..
  then have "s' = s\<lparr>heap := heap s, canvasEls := canvasEls s, drag := dg\<rparr>" by simp
  then show ?thesis by blast
next
  case (MouseMove clientX clientY rectWidth)
  show ?thesis
  proof (cases "drag s")
    case None
    with assms MouseMove have "s' = s" by (simp add: window_mousemove_def)
    then have "s' = s\<lparr>heap := heap s, canvasEls := canvasEls s, drag := drag s\<rparr>" by simp
    then show ?thesis by blast
  next
    case (Some d)
    from assms MouseMove have "window_mousemove clientX clientY rectWidth s = Inr s'" by simp
    from window_mousemove_result [OF this Some] obtain hp c where
      "s' = s\<lparr>heap := hp, canvasEls := list_update (canvasEls s) (formatIndex d) c\<rparr>"
      "map (\<lambda>c. (canvas_width c, canvas_height c))
                 (list_update (canvasEls s) (formatIndex d) c)
               = map (\<lambda>c. (canvas_width c, canvas_height c)) (canvasEls s)"
      by blast
    then have "s' = s\<lparr>heap := hp, canvasEls := list_update (canvasEls s) (formatIndex d) c,
                       drag := drag s\<rparr>
       \<and> map (\<lambda>c. (canvas_width c, canvas_height c))
                 (list_update (canvasEls s) (formatIndex d) c)
               = map (\<lambda>c. (canvas_width c, canvas_height c)) (canvasEls s)"
      by simp
    then show ?thesis by blast
  qed
next
  case MouseUp
  with assms have "s' = s\<lparr>drag := None\<rparr> \<or> s' = s"
    by (auto simp: window_mouseup_def split: option.splits)
  then have "s' = s\<lparr>heap := heap s, canvasEls := canvasEls s, drag := drag s'\<rparr>" by auto
  then show ?thesis by blast
next
  case (SliderInput fi i v)
  with assms obtain r where
    "slider_input (Some r) fi (OUTPUT_FORMATS ! fi) v s = Inr s'"
    by (cases "adjControls s ! fi ! i") (simp_all add: slider_input_def split: if_splits)
  from slider_input_result [OF this] obtain hp c where
    "s' = s\<lparr>heap := hp, canvasEls := list_update (canvasEls s) fi c\<rparr>"
    "map (\<lambda>c. (canvas_width c, canvas_height c)) (list_update (canvasEls s) fi c)
               = map (\<lambda>c. (canvas_width c, canvas_height c)) (canvasEls s)"
    by blast
  then have "s' = s\<lparr>heap := hp, canvasEls := list_update (canvasEls s) fi c, drag := drag s\<rparr>
       \<and> map (\<lambda>c. (canvas_width c, canvas_height c)) (list_update (canvasEls s) fi c)
               = map (\<lambda>c. (canvas_width c, canvas_height c)) (canvasEls s)"
    by simp
  then show ?thesis by blast
next
  case (ResetClick fi i)
  with assms obtain r where
    "reset_click (Some r) fi (OUTPUT_FORMATS ! fi) s = Inr s'"
    by (cases "adjControls s ! fi ! i") (simp_all add: reset_click_def split: if_splits)
  from reset_click_result [OF this] obtain hp c where
    "s' = s\<lparr>heap := hp, canvasEls := list_update (canvasEls s) fi c\<rparr>"
    "map (\<lambda>c. (canvas_width c, canvas_height c)) (list_update (canvasEls s) fi c)
               = map (\<lambda>c. (canvas_width c, canvas_height c)) (canvasEls s)"
    by blast
  then have "s' = s\<lparr>heap := hp, canvasEls := list_update (canvasEls s) fi c, drag := drag s\<rparr>
       \<and> map (\<lambda>c. (canvas_width c, canvas_height c)) (list_update (canvasEls s) fi c)
               = map (\<lambda>c. (canvas_width c, canvas_height c)) (canvasEls s)"
    by simp
  then show ?thesis by blast
qed

lemma run_changes:
  assumes "run evs s = Inr s'"
  shows "\<exists>hp cs dg. s' = s\<lparr>heap := hp, canvasEls := cs, drag := dg\<rparr>
           \<and> map (\<lambda>c. (canvas_width c, canvas_height c)) cs
               = map (\<lambda>c. (canvas_width c, canvas_height c)) (canvasEls s)"
  using assms
proof (induction evs arbitrary: s)
  case Nil
  then have "s' = s\<lparr>heap := heap s, canvasEls := canvasEls s, drag := drag s\<rparr>" by simp
  then show ?case by blast
next
  case (Cons ev evs)
  from Cons.prems obtain s1 where f: "fire ev s = Inr s1" and r: "run evs s1 = Inr s'"
    by (cases "fire ev s") simp_all
  from fire_changes [OF f] obtain hp cs dg where
    s1: "s1 = s\<lparr>heap := hp, canvasEls := cs, drag := dg\<rparr>"
    and d1: "map (\<lambda>c. (canvas_width c, canvas_height c)) cs
               = map (\<lambda>c. (canvas_width c, canvas_height c)) (canvasEls s)"
    by blast
  from Cons.IH [OF r] obtain hp' cs' dg' where
    s': "s' = s1\<lparr>heap := hp', canvasEls := cs', drag := dg'\<rparr>"
    and d': "map (\<lambda>c. (canvas_width c, canvas_height c)) cs'
               = map (\<lambda>c. (canvas_width c, canvas_height c)) (canvasEls s1)"
    by blast
  from s1 s' have "s' = s\<lparr>heap := hp', canvasEls := cs', drag := dg'\<rparr>" by simp
  moreover from d' d1 s1 have "map (\<lambda>c. (canvas_width c, canvas_height c)) cs'
               = map (\<lambda>c. (canvas_width c, canvas_height c)) (canvasEls s)" by simp
  ultimately show ?case by blast
qed

lemma run_composed:
  assumes "composed l s" "run evs s = Inr s'"
  shows "composed l s'"
proof -
  from run_changes [OF assms(2)] obtain hp cs dg where
    "s' = s\<lparr>heap := hp, canvasEls := cs, drag := dg\<rparr>"
    "map (\<lambda>c. (canvas_width c, canvas_height c)) cs
               = map (\<lambda>c. (canvas_width c, canvas_height c)) (canvasEls s)"
    by blast
  with composed_changes [OF assms(1) this(2)] show ?thesis by simp
qed

section \<open>What compose builds\<close>

lemma formats_length: "length OUTPUT_FORMATS = 2"
  by (simp add: OUTPUT_FORMATS_def)

lemma formats_zip:
  "zip [0..<length OUTPUT_FORMATS] OUTPUT_FORMATS
     = [(0, OUTPUT_FORMATS ! 0), (1, OUTPUT_FORMATS ! 1)]"
  by (simp add: OUTPUT_FORMATS_def numeral_2_eq_2 upt_conv_Cons)

lemma formats_map: "map g OUTPUT_FORMATS = [g (OUTPUT_FORMATS ! 0), g (OUTPUT_FORMATS ! 1)]"
  by (simp add: OUTPUT_FORMATS_def)

lemma two_rows:
  assumes "map length xss = [n, m]"
  shows "xss = [xss ! 0, xss ! 1] \<and> length (xss ! 0) = n \<and> length (xss ! 1) = m"
proof -
  from assms obtain a b where "xss = [a, b]"
    by (cases xss; cases "tl xss") auto
  with assms show ?thesis by simp
qed

lemma paintedLayers_cong:
  assumes "focalPoints s' = focalPoints s" "targetFocalY s' = targetFocalY s"
    and "imageEls s' = imageEls s" "adjustments s' = adjustments s"
    and "\<forall>r \<in> set (adjustments s ! fi). heap s' r = heap s r"
    and "count \<le> length (adjustments s ! fi)"
  shows "paintedLayers s' fi fmt count = paintedLayers s fi fmt count"
proof -
  have dp: "drawPanel s' img x y w h index adj = drawPanel s img x y w h index adj"
    for img x y w h index adj
    by (simp add: drawPanel_def assms(1,2))
  have "heap s' (adjustments s ! fi ! j) = heap s (adjustments s ! fi ! j)"
    if "j \<in> set [0..<count]" for j
    using that assms(5,6) by simp
  then show ?thesis
    unfolding paintedLayers_def dp assms(3,4)
    by (simp cong: map_cong)
qed

lemma compose_begin_fields:
  "adjustments (compose_begin l s)
     = fst (allocRows OUTPUT_FORMATS (photoCount l) (heap s, nextRef s))"
  "heap (compose_begin l s)
     = fst (snd (allocRows OUTPUT_FORMATS (photoCount l) (heap s, nextRef s)))"
  "selectedLayout (compose_begin l s) = selectedLayout s"
  "images (compose_begin l s) = images s"
  "focalPoints (compose_begin l s) = focalPoints s"
  "targetFocalY (compose_begin l s)
     = max 0.25 (min (fl 0.65)
         (fl (foldl (\<lambda>a v. fl (a + v)) 0
                (map (\<lambda>i. case focalPoints s i of Some f \<Rightarrow> focal_y f | None \<Rightarrow> 0.5)
                   [0..<photoCount l])
              / real (photoCount l))))"
  by (simp_all add: compose_begin_def Let_def case_prod_beta resetPreview_def)

lemma compose_begin_rows:
  "map length (adjustments (compose_begin l s)) = map (\<lambda>f. photoCount l) OUTPUT_FORMATS"
  "distinct (concat (adjustments (compose_begin l s)))"
  "\<forall>fi < length OUTPUT_FORMATS. \<forall>r \<in> set (adjustments (compose_begin l s) ! fi).
      heap (compose_begin l s) r = \<lparr>panX = 0, panY = 0, scale = 1\<rparr>"
proof -
  let ?a = "allocRows OUTPUT_FORMATS (photoCount l) (heap s, nextRef s)"
  have len: "length (fst ?a) = length OUTPUT_FORMATS" by (rule allocRows_length)
  have row: "fst ?a ! j = [nextRef s + j * photoCount l..<nextRef s + j * photoCount l + photoCount l]"
    if "j < length OUTPUT_FORMATS" for j
    using allocRows_nth [OF that, of "photoCount l" "(heap s, nextRef s)"] by simp
  show "map length (adjustments (compose_begin l s)) = map (\<lambda>f. photoCount l) OUTPUT_FORMATS"
    unfolding compose_begin_fields
    by (rule nth_equalityI) (simp_all add: len row)
  show "distinct (concat (adjustments (compose_begin l s)))"
    unfolding compose_begin_fields by (simp add: allocRows_concat)
  show "\<forall>fi < length OUTPUT_FORMATS. \<forall>r \<in> set (adjustments (compose_begin l s) ! fi).
      heap (compose_begin l s) r = \<lparr>panX = 0, panY = 0, scale = 1\<rparr>"
  proof (intro allI impI ballI)
    fix fi r assume fi: "fi < length OUTPUT_FORMATS"
      and r: "r \<in> set (adjustments (compose_begin l s) ! fi)"
    from r have "nextRef s + fi * photoCount l \<le> r"
      and "r < nextRef s + fi * photoCount l + photoCount l"
      unfolding compose_begin_fields row [OF fi] by simp_all
    moreover have "fi * photoCount l + photoCount l \<le> length OUTPUT_FORMATS * photoCount l"
    proof -
      from fi have "Suc fi \<le> length OUTPUT_FORMATS" by simp
      then have "Suc fi * photoCount l \<le> length OUTPUT_FORMATS * photoCount l"
        by (rule mult_le_mono1)
      then show ?thesis by (simp add: add.commute)
    qed
    ultimately have "nextRef s \<le> r \<and> r < nextRef s + length OUTPUT_FORMATS * photoCount l"
      by linarith
    then show "heap (compose_begin l s) r = \<lparr>panX = 0, panY = 0, scale = 1\<rparr>"
      unfolding compose_begin_fields by (simp add: allocRows_heap)
  qed
qed

lemma settled_length:
  assumes "\<forall>p \<in> set ps. \<exists>img. p = Inr img"
  shows "length (concat (map (\<lambda>p. case p of Inr img \<Rightarrow> [img] | Inl _ \<Rightarrow> []) ps)) = length ps"
  using assms by (induction ps) auto

lemma slotImage_cases:
  "slotImage e s i = Inl TypeError \<or> slotImage e s i = Inl NeverSettles
     \<or> (\<exists>img. slotImage e s i = Inr img)"
  by (simp add: slotImage_def split: option.splits)

lemma loadImageEls_length:
  assumes "loadImageEls e count s = Inr els"
  shows "length els = count"
proof -
  let ?ps = "map (slotImage e s) [0..<count]"
  from assms have no: "Inl TypeError \<notin> set ?ps" "Inl NeverSettles \<notin> set ?ps"
    and els: "els = concat (map (\<lambda>p. case p of Inr img \<Rightarrow> [img] | Inl _ \<Rightarrow> []) ?ps)"
    by (simp_all add: loadImageEls_def Let_def split: if_splits)
  have "\<forall>p \<in> set ?ps. \<exists>img. p = Inr img"
  proof
    fix p assume p: "p \<in> set ?ps"
    then obtain i where "p = slotImage e s i" by auto
    with slotImage_cases [of e s i] p no show "\<exists>img. p = Inr img" by metis
  qed
  from settled_length [OF this] els show ?thesis by simp
qed

lemma buildCanvasEntries_result:
  assumes "selectedLayout s = Some l"
    and "map length (adjustments s) = map (\<lambda>f. photoCount l) OUTPUT_FORMATS"
  shows "buildCanvasEntries s =
     Inr (s\<lparr>canvasEls := map (\<lambda>f. \<lparr>canvas_width = width f, canvas_height = height f,
                                      layers = []\<rparr>) OUTPUT_FORMATS,
            adjControls := map (map Some) (adjustments s)\<rparr>)"
proof -
  from assms(2) have "map length (adjustments s) = [photoCount l, photoCount l]"
    by (simp add: formats_map)
  from two_rows [OF this] have a: "adjustments s = [adjustments s ! 0, adjustments s ! 1]"
    and l0: "length (adjustments s ! 0) = photoCount l"
    and l1: "length (adjustments s ! 1) = photoCount l"
    by simp_all
  from a have len: "length (adjustments s) = 2"
    by (metis length_Cons list.size(3) numeral_2_eq_2)
  have ctl: "map (\<lambda>i. if i < length row then Some (row ! i) else None) [0..<length row]
      = map Some row" for row :: "nat list"
    by (rule nth_equalityI) simp_all
  have b0: "buildAdjControls 0 s2 = Inr (map Some (adjustments s ! 0))"
    if "selectedLayout s2 = Some l" "adjustments s2 = adjustments s" for s2
    using that len ctl [of "adjustments s ! 0"]
    by (simp add: buildAdjControls_def l0 cong: if_cong)
  have b1: "buildAdjControls (Suc 0) s2 = Inr (map Some (adjustments s ! Suc 0))"
    if "selectedLayout s2 = Some l" "adjustments s2 = adjustments s" for s2
    using that len ctl [of "adjustments s ! 1"] l1
    by (simp add: buildAdjControls_def cong: if_cong)
  have m: "map (map Some) (adjustments s) = [map Some (adjustments s ! 0), map Some (adjustments s ! 1)]"
    by (subst a) simp
  show ?thesis
    unfolding buildCanvasEntries_def formats_zip formats_map m
    by (simp add: b0 b1 assms(1))
qed

lemma renderAllCanvases_composed:
  assumes "composed l s"
  shows "\<exists>cs. renderAllCanvases s = Inr (s\<lparr>canvasEls := cs\<rparr>)
           \<and> composed l (s\<lparr>canvasEls := cs\<rparr>)
           \<and> (\<forall>fi < length OUTPUT_FORMATS.
                 layers (cs ! fi) = paintedLayers s fi (OUTPUT_FORMATS ! fi) (photoCount l))"
proof -
  define c0 where "c0 = (canvasEls s ! 0)
                 \<lparr>layers := paintedLayers s 0 (OUTPUT_FORMATS ! 0) (photoCount l)\<rparr>"
  define s1 where "s1 = s\<lparr>canvasEls := list_update (canvasEls s) 0 c0\<rparr>"
  define c1 where "c1 = (canvasEls s1 ! 1)
                 \<lparr>layers := paintedLayers s1 1 (OUTPUT_FORMATS ! 1) (photoCount l)\<rparr>"
  define s2 where "s2 = s1\<lparr>canvasEls := list_update (canvasEls s1) 1 c1\<rparr>"
  have r0: "renderForFormat 0 (OUTPUT_FORMATS ! 0) s = Inr s1"
    using renderForFormat_composed [OF assms, of 0] by (simp add: formats_length s1_def c0_def)
  from renderForFormat_changes [OF r0] obtain c where
    "s1 = s\<lparr>canvasEls := list_update (canvasEls s) 0 c\<rparr>"
    "map (\<lambda>c. (canvas_width c, canvas_height c)) (list_update (canvasEls s) 0 c)
               = map (\<lambda>c. (canvas_width c, canvas_height c)) (canvasEls s)"
    by blast
  with assms have comp1: "composed l s1" by (simp add: composed_def)
  have r1: "renderForFormat 1 (OUTPUT_FORMATS ! 1) s1 = Inr s2"
    using renderForFormat_composed [OF comp1, of 1] by (simp add: formats_length s2_def c1_def)
  from renderForFormat_changes [OF r1] obtain c' where
    "s2 = s1\<lparr>canvasEls := list_update (canvasEls s1) 1 c'\<rparr>"
    "map (\<lambda>c. (canvas_width c, canvas_height c)) (list_update (canvasEls s1) 1 c')
               = map (\<lambda>c. (canvas_width c, canvas_height c)) (canvasEls s1)"
    by blast
  with comp1 have comp2: "composed l s2" by (simp add: composed_def)
  have all: "renderAllCanvases s = Inr s2"
    using r0 r1 unfolding renderAllCanvases_def formats_zip by simp
  have s2: "s2 = s\<lparr>canvasEls := list_update (list_update (canvasEls s) 0 c0) 1 c1\<rparr>"
    by (simp add: s2_def s1_def)
  note sh0 = composed_shape [OF assms, of 0] and sh1 = composed_shape [OF assms, of 1]
  have len: "length (canvasEls s) = 2"
    using assms by (auto simp: composed_def formats_map dest: map_eq_imp_length_eq)
  have p1: "paintedLayers s1 1 (OUTPUT_FORMATS ! 1) (photoCount l)
      = paintedLayers s 1 (OUTPUT_FORMATS ! 1) (photoCount l)"
    by (rule paintedLayers_cong) (use sh1 in \<open>simp_all add: s1_def formats_length\<close>)
  have l0: "layers (list_update (list_update (canvasEls s) 0 c0) 1 c1 ! 0)
      = paintedLayers s 0 (OUTPUT_FORMATS ! 0) (photoCount l)"
    using len by (simp add: c0_def)
  have l1: "layers (list_update (list_update (canvasEls s) 0 c0) 1 c1 ! 1)
      = paintedLayers s 1 (OUTPUT_FORMATS ! 1) (photoCount l)"
    using len p1 by (simp add: c1_def)
  have "\<forall>fi < length OUTPUT_FORMATS.
      layers (list_update (list_update (canvasEls s) 0 c0) 1 c1 ! fi)
        = paintedLayers s fi (OUTPUT_FORMATS ! fi) (photoCount l)"
  proof (intro allI impI)
    fix fi assume "fi < length OUTPUT_FORMATS"
    then have "fi = 0 \<or> fi = 1" by (auto simp: formats_length)
    with l0 l1 show "layers (list_update (list_update (canvasEls s) 0 c0) 1 c1 ! fi)
        = paintedLayers s fi (OUTPUT_FORMATS ! fi) (photoCount l)" by auto
  qed
  with all comp2 s2 show ?thesis by auto
qed

lemma slotImage_compose_begin: "slotImage e (compose_begin l s) i = slotImage e s i"
  by (simp add: slotImage_def compose_begin_fields)

lemma loadImageEls_compose_begin:
  "loadImageEls e n (compose_begin l s) = loadImageEls e n s"
  unfolding loadImageEls_def slotImage_compose_begin ..

lemma loadImageEls_succeeds:
  assumes "\<forall>i<n. \<exists>im img. images s i = Some im \<and> decodeImage e (dataURL im) = Some img"
  shows "\<exists>els. loadImageEls e n s = Inr els"
proof -
  have "\<exists>img. slotImage e s i = Inr img" if "i < n" for i
    using assms that by (auto simp: slotImage_def)
  then have "Inl TypeError \<notin> set (map (slotImage e s) [0..<n])"
    and "Inl NeverSettles \<notin> set (map (slotImage e s) [0..<n])"
    by fastforce+
  then show ?thesis by (simp add: loadImageEls_def Let_def)
qed

lemma compose_eq:
  assumes "selectedLayout s = Some l"
    and els: "loadImageEls e (photoCount l) (compose_begin l s) = Inr els"
  shows "\<exists>cs. compose e s = Inr ((compose_begin l s)
                  \<lparr>imageEls := els, canvasEls := cs,
                   adjControls := map (map Some) (adjustments (compose_begin l s)),
                   composited := True, btnComposeDisabled := False\<rparr>)
           \<and> composed l ((compose_begin l s)
                  \<lparr>imageEls := els, canvasEls := cs,
                   adjControls := map (map Some) (adjustments (compose_begin l s)),
                   composited := True, btnComposeDisabled := False\<rparr>)
           \<and> (\<forall>fi < length OUTPUT_FORMATS.
                 layers (cs ! fi) = paintedLayers ((compose_begin l s)
                  \<lparr>imageEls := els, canvasEls := cs,
                   adjControls := map (map Some) (adjustments (compose_begin l s)),
                   composited := True, btnComposeDisabled := False\<rparr>)
                   fi (OUTPUT_FORMATS ! fi) (photoCount l))"
proof -
  define s1 where "s1 = compose_begin l s"
  note els = els [folded s1_def]
  define sA where "sA = s1\<lparr>imageEls := els,
       canvasEls := map (\<lambda>f. \<lparr>canvas_width = width f, canvas_height = height f,
                                      layers = []\<rparr>) OUTPUT_FORMATS,
       adjControls := map (map Some) (adjustments s1), composited := True\<rparr>"
  have lay: "selectedLayout s1 = Some l"
    by (simp add: s1_def compose_begin_fields assms(1))
  have rows: "map length (adjustments s1) = map (\<lambda>f. photoCount l) OUTPUT_FORMATS"
    and dist: "distinct (concat (adjustments s1))"
    unfolding s1_def by (rule compose_begin_rows)+
  have build: "buildCanvasEntries (s1\<lparr>imageEls := els\<rparr>)
      = Inr (s1\<lparr>imageEls := els,
               canvasEls := map (\<lambda>f. \<lparr>canvas_width = width f, canvas_height = height f,
                                      layers = []\<rparr>) OUTPUT_FORMATS,
               adjControls := map (map Some) (adjustments s1)\<rparr>)"
    using buildCanvasEntries_result [of "s1\<lparr>imageEls := els\<rparr>" l] lay rows by simp
  have compA: "composed l sA"
    using lay rows dist loadImageEls_length [OF els]
    by (simp add: composed_def sA_def comp_def)
  from renderAllCanvases_composed [OF compA] obtain cs where
    ren: "renderAllCanvases sA = Inr (sA\<lparr>canvasEls := cs\<rparr>)"
    and compB: "composed l (sA\<lparr>canvasEls := cs\<rparr>)"
    and lays: "\<forall>fi < length OUTPUT_FORMATS.
                 layers (cs ! fi) = paintedLayers sA fi (OUTPUT_FORMATS ! fi) (photoCount l)"
    by blast
  define s0 where "s0 = sA\<lparr>canvasEls := cs, btnComposeDisabled := False\<rparr>"
  have ren': "renderAllCanvases (s1\<lparr>imageEls := els,
               canvasEls := map (\<lambda>f. \<lparr>canvas_width = width f, canvas_height = height f,
                                      layers = []\<rparr>) OUTPUT_FORMATS,
               adjControls := map (map Some) (adjustments s1), composited := True\<rparr>)
       = Inr (sA\<lparr>canvasEls := cs\<rparr>)"
    using ren by (simp add: sA_def)
  from assms(1) have c: "compose e s = Inr s0"
    by (simp add: compose_def Let_def s1_def [symmetric] els build ren' s0_def)
  have comp0: "composed l s0"
    using compB by (simp add: s0_def composed_def)
  have pl: "paintedLayers s0 fi fmt (photoCount l) = paintedLayers sA fi fmt (photoCount l)"
    if "fi < length OUTPUT_FORMATS" for fi fmt
    by (rule paintedLayers_cong)
       (use composed_shape [OF compA that] in \<open>simp_all add: s0_def\<close>)
  have s0: "s0 = s1\<lparr>imageEls := els, canvasEls := cs,
                   adjControls := map (map Some) (adjustments s1),
                   composited := True, btnComposeDisabled := False\<rparr>"
    by (simp add: s0_def sA_def)
  from c comp0 lays pl show ?thesis
    unfolding s0 s1_def by auto
qed

lemma compose_result:
  assumes "selectedLayout s = Some l" "compose e s = Inr s0"
  shows "\<exists>els cs. loadImageEls e (photoCount l) (compose_begin l s) = Inr els
           \<and> s0 = (compose_begin l s)
                  \<lparr>imageEls := els, canvasEls := cs,
                   adjControls := map (map Some) (adjustments (compose_begin l s)),
                   composited := True, btnComposeDisabled := False\<rparr>
           \<and> composed l s0
           \<and> (\<forall>fi < length OUTPUT_FORMATS.
                 layers (cs ! fi) = paintedLayers s0 fi (OUTPUT_FORMATS ! fi) (photoCount l))"
proof -
  from assms obtain els where els: "loadImageEls e (photoCount l) (compose_begin l s) = Inr els"
    by (cases "loadImageEls e (photoCount l) (compose_begin l s)")
       (simp_all add: compose_def Let_def)
  from compose_eq [OF assms(1) els] assms(2) els show ?thesis by auto
qed

lemma compose_succeeds:
  assumes "selectedLayout s = Some l"
    and "\<forall>i<photoCount l. \<exists>im img. images s i = Some im \<and> decodeImage e (dataURL im) = Some img"
  shows "\<exists>s0. compose e s = Inr s0"
proof -
  from loadImageEls_succeeds [OF assms(2)] obtain els where
    "loadImageEls e (photoCount l) (compose_begin l s) = Inr els"
    by (auto simp: loadImageEls_compose_begin)
  from compose_eq [OF assms(1) this] show ?thesis by blast
qed

section \<open>The handlers on a composed preview\<close>

lemma composed_heap: "composed l s \<Longrightarrow> composed l (s\<lparr>heap := hp\<rparr>)"
  by (simp add: composed_def)

lemma renderForFormat_heap_composed:
  assumes "composed l s" "fi < length OUTPUT_FORMATS"
  shows "renderForFormat fi (OUTPUT_FORMATS ! fi) (s\<lparr>heap := hp\<rparr>) =
     Inr (s\<lparr>heap := hp,
            canvasEls := list_update (canvasEls s) fi
              ((canvasEls s ! fi)
                 \<lparr>layers := paintedLayers (s\<lparr>heap := hp\<rparr>) fi (OUTPUT_FORMATS ! fi)
                              (photoCount l)\<rparr>)\<rparr>)"
  using renderForFormat_composed [OF composed_heap [OF assms(1)] assms(2), of hp] by simp

lemma fire_SliderInput_composed:
  fixes v :: real
  assumes "composed l s" "fi < length OUTPUT_FORMATS" "i < photoCount l"
  defines "hp \<equiv> (heap s)(adjustments s ! fi ! i :=
                   (heap s (adjustments s ! fi ! i))\<lparr>scale := v, panX := 0, panY := 0\<rparr>)"
  shows "fire (SliderInput fi i v) s =
     Inr (s\<lparr>heap := hp,
            canvasEls := list_update (canvasEls s) fi
              ((canvasEls s ! fi)
                 \<lparr>layers := paintedLayers (s\<lparr>heap := hp\<rparr>) fi (OUTPUT_FORMATS ! fi)
                              (photoCount l)\<rparr>)\<rparr>)"
proof -
  note sh = composed_shape [OF assms(1,2)]
  from assms(1) have c: "adjControls s = map (map Some) (adjustments s)"
    by (simp add: composed_def)
  have ctl: "fi < length (adjControls s)" "i < length (adjControls s ! fi)"
    "adjControls s ! fi ! i = Some (adjustments s ! fi ! i)"
    using sh assms(3) by (simp_all add: c)
  show ?thesis
    using ctl assms(2)
    by (simp add: slider_input_def hp_def renderForFormat_heap_composed [OF assms(1,2)])
qed

lemma fire_ResetClick_composed:
  assumes "composed l s" "fi < length OUTPUT_FORMATS" "i < photoCount l"
  defines "hp \<equiv> (heap s)(adjustments s ! fi ! i :=
                   (heap s (adjustments s ! fi ! i))\<lparr>panX := 0, panY := 0, scale := 1\<rparr>)"
  shows "fire (ResetClick fi i) s =
     Inr (s\<lparr>heap := hp,
            canvasEls := list_update (canvasEls s) fi
              ((canvasEls s ! fi)
                 \<lparr>layers := paintedLayers (s\<lparr>heap := hp\<rparr>) fi (OUTPUT_FORMATS ! fi)
                              (photoCount l)\<rparr>)\<rparr>)"
proof -
  note sh = composed_shape [OF assms(1,2)]
  from assms(1) have c: "adjControls s = map (map Some) (adjustments s)"
    by (simp add: composed_def)
  have ctl: "fi < length (adjControls s)" "i < length (adjControls s ! fi)"
    "adjControls s ! fi ! i = Some (adjustments s ! fi ! i)"
    using sh assms(3) by (simp_all add: c)
  show ?thesis
    using ctl assms(2)
    by (simp add: reset_click_def hp_def renderForFormat_heap_composed [OF assms(1,2)])
qed

lemma fire_MouseMove_composed:
  fixes clientX clientY rectWidth :: real
  assumes "composed l s" "drag s = Some d" "formatIndex d < length OUTPUT_FORMATS"
    and "panelIndex d < photoCount l" "rectWidth \<noteq> 0"
  defines "hp \<equiv> (heap s)(adjustments s ! formatIndex d ! panelIndex d :=
             (heap s (adjustments s ! formatIndex d ! panelIndex d))
               \<lparr>panX := startPanX d + (clientX - startMouseX d) * (real (formatWidth d) / rectWidth),
                panY := startPanY d + (clientY - startMouseY d) * (real (formatWidth d) / rectWidth)\<rparr>)"
  shows "fire (MouseMove clientX clientY rectWidth) s =
     Inr (s\<lparr>heap := hp,
            canvasEls := list_update (canvasEls s) (formatIndex d)
              ((canvasEls s ! formatIndex d)
                 \<lparr>layers := paintedLayers (s\<lparr>heap := hp\<rparr>) (formatIndex d)
                              (OUTPUT_FORMATS ! formatIndex d) (photoCount l)\<rparr>)\<rparr>)"
proof -
  note sh = composed_shape [OF assms(1,3)]
  show ?thesis
    using sh assms(2-5)
    by (simp add: window_mousemove_def Let_def hp_def
          renderForFormat_heap_composed [OF assms(1,3)])
qed

lemma fire_affects:
  assumes "composed l s" "fire ev s = Inr s'"
  shows "(heap s' = heap s \<and> canvasEls s' = canvasEls s)
       \<or> (\<exists>fi i a c. affected_format s ev = Some fi
             \<and> fi < length (adjustments s) \<and> i < length (adjustments s ! fi)
             \<and> heap s' = (heap s)(adjustments s ! fi ! i := a)
             \<and> canvasEls s' = list_update (canvasEls s) fi c)"
proof (cases ev)
  case (MouseDown fi clientX clientY rectLeft rectWidth)
  with assms(2) have
    "canvas_mousedown fi (OUTPUT_FORMATS ! fi) clientX clientY rectLeft rectWidth s = Inr s'"
    by (simp split: if_splits)
  from canvas_mousedown_result [OF this] show ?thesis by auto
next
  case (MouseMove clientX clientY rectWidth)
  show ?thesis
  proof (cases "drag s")
    case None
    with assms(2) MouseMove show ?thesis by (simp add: window_mousemove_def)
  next
    case (Some d)
    from assms(2) MouseMove have "window_mousemove clientX clientY rectWidth s = Inr s'" by simp
    from window_mousemove_result [OF this Some] obtain a c where
      "formatIndex d < length (adjustments s)"
      "panelIndex d < length (adjustments s ! formatIndex d)"
      "s' = s\<lparr>heap := (heap s)(adjustments s ! formatIndex d ! panelIndex d := a),
             canvasEls := list_update (canvasEls s) (formatIndex d) c\<rparr>"
      by blast
    moreover have "affected_format s ev = Some (formatIndex d)"
      by (simp add: MouseMove Some)
    ultimately show ?thesis by (intro disjI2 exI [of _ "formatIndex d"] exI [of _ "panelIndex d"]
          exI [of _ a] exI [of _ c]) simp
  qed
next
  case MouseUp
  with assms(2) show ?thesis by (auto simp: window_mouseup_def split: option.splits)
next
  case (SliderInput fi i v)
  with assms(2) have ex: "fi < length (adjControls s)" "i < length (adjControls s ! fi)"
    and f: "slider_input (adjControls s ! fi ! i) fi (OUTPUT_FORMATS ! fi) v s = Inr s'"
    by (simp_all split: if_splits)
  from composed_control [OF assms(1) ex]
  have rng: "fi < length (adjustments s)" "i < length (adjustments s ! fi)"
    and ctl: "adjControls s ! fi ! i = Some (adjustments s ! fi ! i)" by simp_all
  from slider_input_result [OF f [unfolded ctl]] obtain a c where
    "s' = s\<lparr>heap := (heap s)(adjustments s ! fi ! i := a),
           canvasEls := list_update (canvasEls s) fi c\<rparr>"
    by blast
  with rng SliderInput show ?thesis
    by (intro disjI2 exI [of _ fi] exI [of _ i] exI [of _ a] exI [of _ c]) simp
next
  case (ResetClick fi i)
  with assms(2) have ex: "fi < length (adjControls s)" "i < length (adjControls s ! fi)"
    and f: "reset_click (adjControls s ! fi ! i) fi (OUTPUT_FORMATS ! fi) s = Inr s'"
    by (simp_all split: if_splits)
  from composed_control [OF assms(1) ex]
  have rng: "fi < length (adjustments s)" "i < length (adjustments s ! fi)"
    and ctl: "adjControls s ! fi ! i = Some (adjustments s ! fi ! i)" by simp_all
  from reset_click_result [OF f [unfolded ctl]] obtain a c where
    "s' = s\<lparr>heap := (heap s)(adjustments s ! fi ! i := a),
           canvasEls := list_update (canvasEls s) fi c\<rparr>"
    by blast
  with rng ResetClick show ?thesis
    by (intro disjI2 exI [of _ fi] exI [of _ i] exI [of _ a] exI [of _ c]) simp
qed

lemma fire_other_format:
  assumes "composed l s" "fire ev s = Inr s'"
    and "fj < length OUTPUT_FORMATS" "affected_format s ev \<noteq> Some fj"
  shows "adjustments s' = adjustments s \<and> adjustmentRow s' fj = adjustmentRow s fj
       \<and> canvasEls s' ! fj = canvasEls s ! fj"
proof -
  from fire_changes [OF assms(2)] have adj: "adjustments s' = adjustments s" by auto
  from assms(1) have dist: "distinct (concat (adjustments s))" by (simp add: composed_def)
  note sh = composed_shape [OF assms(1,3)]
  from fire_affects [OF assms(1,2)] show ?thesis
  proof
    assume "heap s' = heap s \<and> canvasEls s' = canvasEls s"
    with adj show ?thesis by (simp add: adjustmentRow_def)
  next
    assume "\<exists>fi i a c. affected_format s ev = Some fi
             \<and> fi < length (adjustments s) \<and> i < length (adjustments s ! fi)
             \<and> heap s' = (heap s)(adjustments s ! fi ! i := a)
             \<and> canvasEls s' = list_update (canvasEls s) fi c"
    then obtain fi i a c where af: "affected_format s ev = Some fi"
      and fi: "fi < length (adjustments s)" and i: "i < length (adjustments s ! fi)"
      and hp: "heap s' = (heap s)(adjustments s ! fi ! i := a)"
      and cs: "canvasEls s' = list_update (canvasEls s) fi c"
      by blast
    from af assms(4) have ne: "fi \<noteq> fj" by auto
    from distinct_concat_rows [OF dist fi sh(4) ne]
    have "adjustments s ! fi ! i \<notin> set (adjustments s ! fj)"
      using nth_mem [OF i] by auto
    then have "map (heap s') (adjustments s ! fj) = map (heap s) (adjustments s ! fj)"
      unfolding hp by (intro map_cong [OF refl]) auto
    with adj cs ne show ?thesis by (simp add: adjustmentRow_def)
  qed
qed

section \<open>Hit test\<close>

lemma getPanelIndex_loop_char:
  assumes "cursor = (if 0 < i then real i * (slotW + real DIVIDER_width) - real DIVIDER_width else 0)"
  shows "(getPanelIndex_loop cx slotW count i cursor = - 1
            \<and> (\<forall>j. i \<le> j \<and> j < count \<longrightarrow>
                  \<not> (real j * (slotW + real DIVIDER_width) \<le> cx
                     \<and> cx < real j * (slotW + real DIVIDER_width) + slotW)))
       \<or> (\<exists>j. i \<le> j \<and> j < count \<and> getPanelIndex_loop cx slotW count i cursor = int j
              \<and> real j * (slotW + real DIVIDER_width) \<le> cx
              \<and> cx < real j * (slotW + real DIVIDER_width) + slotW)"
  using assms
proof (induction cx slotW count i cursor rule: getPanelIndex_loop.induct)
  case (1 cx slotW count i cursor)
  let ?D = "real DIVIDER_width"
  show ?case
  proof (cases "i < count")
    case False
    then show ?thesis by (subst getPanelIndex_loop.simps) simp
  next
    case True
    define c0 where "c0 = (if 0 < i then cursor + ?D else cursor)"
    have c0: "c0 = real i * (slotW + ?D)"
      using "1.prems" by (simp add: c0_def)
    have eq: "getPanelIndex_loop cx slotW count i cursor
        = (if cx \<ge> c0 \<and> cx < c0 + slotW then int i
           else getPanelIndex_loop cx slotW count (Suc i) (c0 + slotW))"
      using True by (subst getPanelIndex_loop.simps) (simp add: Let_def c0_def)
    show ?thesis
    proof (cases "cx \<ge> c0 \<and> cx < c0 + slotW")
      case hit: True
      then have "getPanelIndex_loop cx slotW count i cursor = int i"
        by (simp add: eq)
      with hit True c0 show ?thesis by (intro disjI2 exI [of _ i]) simp
    next
      case miss: False
      have step: "getPanelIndex_loop cx slotW count i cursor
          = getPanelIndex_loop cx slotW count (Suc i) (c0 + slotW)"
        using miss unfolding eq by auto
      have cur: "c0 + slotW = (if 0 < Suc i then real (Suc i) * (slotW + ?D) - ?D else 0)"
        by (simp add: c0 algebra_simps)
      have ih: "(getPanelIndex_loop cx slotW count (Suc i) (c0 + slotW) = - 1
            \<and> (\<forall>j. Suc i \<le> j \<and> j < count \<longrightarrow>
                  \<not> (real j * (slotW + ?D) \<le> cx \<and> cx < real j * (slotW + ?D) + slotW)))
       \<or> (\<exists>j. Suc i \<le> j \<and> j < count
              \<and> getPanelIndex_loop cx slotW count (Suc i) (c0 + slotW) = int j
              \<and> real j * (slotW + ?D) \<le> cx \<and> cx < real j * (slotW + ?D) + slotW)"
        using "1.IH" [OF True c0_def miss cur] by simp
      from ih show ?thesis
      proof
        assume a: "getPanelIndex_loop cx slotW count (Suc i) (c0 + slotW) = - 1
            \<and> (\<forall>j. Suc i \<le> j \<and> j < count \<longrightarrow>
                  \<not> (real j * (slotW + ?D) \<le> cx \<and> cx < real j * (slotW + ?D) + slotW))"
        have "\<not> (real j * (slotW + ?D) \<le> cx \<and> cx < real j * (slotW + ?D) + slotW)"
          if "i \<le> j \<and> j < count" for j
        proof (cases "j = i")
          case True
          with miss c0 show ?thesis by simp
        next
          case False
          with that have "Suc i \<le> j \<and> j < count" by simp
          with a show ?thesis by blast
        qed
        with a step show ?thesis by simp
      next
        assume "\<exists>j. Suc i \<le> j \<and> j < count
              \<and> getPanelIndex_loop cx slotW count (Suc i) (c0 + slotW) = int j
              \<and> real j * (slotW + ?D) \<le> cx \<and> cx < real j * (slotW + ?D) + slotW"
        then obtain j where "Suc i \<le> j" "j < count"
          "getPanelIndex_loop cx slotW count (Suc i) (c0 + slotW) = int j"
          "real j * (slotW + ?D) \<le> cx" "cx < real j * (slotW + ?D) + slotW"
          by blast
        with step show ?thesis by (intro disjI2 exI [of _ j]) simp
      qed
    qed
  qed
qed

lemma panels_disjoint:
  fixes slotW D cx :: real
  assumes "0 \<le> D"
    and "real j * (slotW + D) \<le> cx" "cx < real j * (slotW + D) + slotW"
    and "real k * (slotW + D) \<le> cx" "cx < real k * (slotW + D) + slotW"
  shows "j = k"
proof -
  have pos: "0 < slotW" using assms(2,3) by linarith
  have lt: False if "a < b"
    and "real a * (slotW + D) \<le> cx" "cx < real a * (slotW + D) + slotW"
    and "real b * (slotW + D) \<le> cx" for a b :: nat
  proof -
    from that(1) have "real a + 1 \<le> real b" by simp
    then have "(real a + 1) * (slotW + D) \<le> real b * (slotW + D)"
      using pos assms(1) by (intro mult_right_mono) simp_all
    then have "real a * (slotW + D) + slotW \<le> real b * (slotW + D)"
      using assms(1) by (simp add: algebra_simps)
    with that show False by linarith
  qed
  show ?thesis
  proof (rule ccontr)
    assume "j \<noteq> k"
    then consider "j < k" | "k < j" by linarith
    then show False
    proof cases
      case 1
      from lt [OF 1 assms(2,3,4)] show False .
    next
      case 2
      from lt [OF 2 assms(4,5,2)] show False .
    qed
  qed
qed

lemma getPanelIndex_loop_iff:
  shows "(\<forall>j < count. getPanelIndex_loop cx slotW count 0 0 = int j \<longleftrightarrow>
             real j * (slotW + real DIVIDER_width) \<le> cx
             \<and> cx < real j * (slotW + real DIVIDER_width) + slotW)
       \<and> (getPanelIndex_loop cx slotW count 0 0 = - 1 \<longleftrightarrow>
            (\<forall>j < count. \<not> (real j * (slotW + real DIVIDER_width) \<le> cx
                             \<and> cx < real j * (slotW + real DIVIDER_width) + slotW)))
       \<and> (getPanelIndex_loop cx slotW count 0 0 = - 1
            \<or> (\<exists>j < count. getPanelIndex_loop cx slotW count 0 0 = int j))"
proof -
  let ?D = "real DIVIDER_width"
  let ?R = "getPanelIndex_loop cx slotW count 0 0"
  let ?inP = "\<lambda>j. real j * (slotW + ?D) \<le> cx \<and> cx < real j * (slotW + ?D) + slotW"
  have D: "0 \<le> ?D" by simp
  have ch: "(?R = - 1 \<and> (\<forall>j. 0 \<le> j \<and> j < count \<longrightarrow> \<not> ?inP j))
       \<or> (\<exists>j. 0 \<le> j \<and> j < count \<and> ?R = int j \<and> ?inP j)"
    using getPanelIndex_loop_char [of 0 0 slotW cx count] by simp
  have uniq: "j = k" if "?inP j" "?inP k" for j k
    using panels_disjoint [OF D, of j slotW cx k] that by blast
  from ch show ?thesis
  proof
    assume a: "?R = - 1 \<and> (\<forall>j. 0 \<le> j \<and> j < count \<longrightarrow> \<not> ?inP j)"
    then have "?R \<noteq> int j" for j by simp
    with a show ?thesis by auto
  next
    assume "\<exists>j. 0 \<le> j \<and> j < count \<and> ?R = int j \<and> ?inP j"
    then obtain j where j: "j < count" "?R = int j" "?inP j" by blast
    have 1: "\<forall>k < count. ?R = int k \<longleftrightarrow> ?inP k"
    proof (intro allI impI iffI)
      fix k assume "k < count" "?R = int k"
      with j show "?inP k" by simp
    next
      fix k assume "k < count" "?inP k"
      from uniq [OF j(3) this(2)] j(2) show "?R = int k" by simp
    qed
    have 2: "?R \<noteq> - 1" using j(2) by simp
    from 1 2 j show ?thesis by auto
  qed
qed

section \<open>The example session\<close>

lemma example_layout:
  "selectedLayout example_state = Some (LAYOUTS ! 0)" "photoCount (LAYOUTS ! 0) = 2"
  by (simp_all add: example_state_def LAYOUTS_def)

lemma example_composes: "\<exists>s0. compose example_env example_state = Inr s0"
proof (rule compose_succeeds [OF example_layout(1)])
  show "\<forall>i<photoCount (LAYOUTS ! 0).
          \<exists>im img. images example_state i = Some im
            \<and> decodeImage example_env (dataURL im) = Some img"
    by (simp add: example_layout(2) example_state_def example_env_def)
qed

section \<open>Dragging\<close>

lemma getPanelIndex_layout:
  "selectedLayout s = Some l \<Longrightarrow>
     getPanelIndex cssX rectWidth w s =
       Inr (if rectWidth = 0 then - 1
            else getPanelIndex_loop (cssX * (real w / rectWidth)) (slotWidth w (photoCount l))
                   (photoCount l) 0 0)"
  by (simp add: getPanelIndex_def Let_def slotWidth_def)

lemma composed_drag: "composed l s \<Longrightarrow> composed l (s\<lparr>drag := dg\<rparr>)"
  by (simp add: composed_def)

lemma fire_composed:
  assumes "composed l s" "fire ev s = Inr s'"
  shows "composed l s'"
proof -
  from fire_changes [OF assms(2)] obtain hp cs dg where
    "s' = s\<lparr>heap := hp, canvasEls := cs, drag := dg\<rparr>"
    "map (\<lambda>c. (canvas_width c, canvas_height c)) cs
               = map (\<lambda>c. (canvas_width c, canvas_height c)) (canvasEls s)"
    by blast
  with composed_changes [OF assms(1) this(2)] show ?thesis by simp
qed

lemma fire_MouseDown_hit:
  assumes "composed l s" "fi < length OUTPUT_FORMATS"
    and "getPanelIndex (clientX - rectLeft) rectWidth (width (OUTPUT_FORMATS ! fi)) s
           = Inr (int pidx)"
  shows "pidx < photoCount l"
    and "fire (MouseDown fi clientX clientY rectLeft rectWidth) s =
     Inr (s\<lparr>drag := Some \<lparr>formatIndex = fi, formatWidth = width (OUTPUT_FORMATS ! fi),
                            panelIndex = pidx,
                            startMouseX = clientX, startMouseY = clientY,
                            startPanX = panX (heap s (adjustments s ! fi ! pidx)),
                            startPanY = panY (heap s (adjustments s ! fi ! pidx))\<rparr>\<rparr>)"
proof -
  from assms(1) have l: "selectedLayout s = Some l" and comp: "composited s"
    by (simp_all add: composed_def)
  note sh = composed_shape [OF assms(1,2)]
  let ?R = "getPanelIndex_loop ((clientX - rectLeft) * (real (width (OUTPUT_FORMATS ! fi)) / rectWidth))
              (slotWidth (width (OUTPUT_FORMATS ! fi)) (photoCount l)) (photoCount l) 0 0"
  from assms(3) have R: "?R = int pidx"
    unfolding getPanelIndex_layout [OF l] by (simp split: if_splits)
  from getPanelIndex_loop_iff [of "photoCount l"
       "(clientX - rectLeft) * (real (width (OUTPUT_FORMATS ! fi)) / rectWidth)"
       "slotWidth (width (OUTPUT_FORMATS ! fi)) (photoCount l)"]
  have "?R = - 1 \<or> (\<exists>j < photoCount l. ?R = int j)" by blast
  with R show p: "pidx < photoCount l" by auto
  show "fire (MouseDown fi clientX clientY rectLeft rectWidth) s =
     Inr (s\<lparr>drag := Some \<lparr>formatIndex = fi, formatWidth = width (OUTPUT_FORMATS ! fi),
                            panelIndex = pidx,
                            startMouseX = clientX, startMouseY = clientY,
                            startPanX = panX (heap s (adjustments s ! fi ! pidx)),
                            startPanY = panY (heap s (adjustments s ! fi ! pidx))\<rparr>\<rparr>)"
    using assms(2,3) sh p comp by (simp add: canvas_mousedown_def Let_def)
qed



lemma compose_defaults:
  assumes "selectedLayout s = Some l" "compose e s = Inr s0"
  shows "fi < length OUTPUT_FORMATS \<Longrightarrow> i < photoCount l \<Longrightarrow>
           heap s0 (adjustments s0 ! fi ! i) = \<lparr>panX = 0, panY = 0, scale = 1\<rparr>"
    and "focalPoints s0 = focalPoints s"
    and "targetFocalY s0 = targetFocalY (compose_begin l s)"
proof -
  from compose_result [OF assms] obtain els cs where
    s0: "s0 = (compose_begin l s)
                  \<lparr>imageEls := els, canvasEls := cs,
                   adjControls := map (map Some) (adjustments (compose_begin l s)),
                   composited := True, btnComposeDisabled := False\<rparr>"
    and c0: "composed l s0"
    by blast
  show "focalPoints s0 = focalPoints s" by (simp add: s0 compose_begin_fields)
  show "targetFocalY s0 = targetFocalY (compose_begin l s)" by (simp add: s0)
  assume fi: "fi < length OUTPUT_FORMATS" and i: "i < photoCount l"
  from composed_shape [OF c0 fi] i
  have "adjustments s0 ! fi ! i \<in> set (adjustments s0 ! fi)" by simp
  then have "adjustments (compose_begin l s) ! fi ! i \<in> set (adjustments (compose_begin l s) ! fi)"
    by (simp add: s0)
  with compose_begin_rows(3) [of l s] fi
  have "heap (compose_begin l s) (adjustments (compose_begin l s) ! fi ! i)
          = \<lparr>panX = 0, panY = 0, scale = 1\<rparr>"
    by blast
  then show "heap s0 (adjustments s0 ! fi ! i) = \<lparr>panX = 0, panY = 0, scale = 1\<rparr>"
    by (simp add: s0)
qed

lemma example_hit:
  "getPanelIndex_loop (100 * (real (width (OUTPUT_FORMATS ! 0)) / 1000))
     (slotWidth (width (OUTPUT_FORMATS ! 0)) (photoCount (LAYOUTS ! 0)))
     (photoCount (LAYOUTS ! 0)) 0 0 = 0"
  by (simp add: getPanelIndex_loop.simps OUTPUT_FORMATS_def LAYOUTS_def slotWidth_def
        DIVIDER_width_def Let_def)


section \<open>Zoom and reset\<close>

lemma paintedLayers_nth:
  "i < count \<Longrightarrow>
     paintedLayers s fi fmt count ! Suc i =
       Panel (drawPanel s (imageEls s ! i)
                (real i * (slotWidth (width fmt) count + real DIVIDER_width)) 0
                (slotWidth (width fmt) count) (real (height fmt)) i
                (heap s (adjustments s ! fi ! i)))"
  by (simp add: paintedLayers_def)

lemma drawPanel_cong:
  "focalPoints s' = focalPoints s \<Longrightarrow> targetFocalY s' = targetFocalY s \<Longrightarrow>
     drawPanel s' img x y w h index adj = drawPanel s img x y w h index adj"
  by (simp add: drawPanel_def)

text \<open>
  Claim C10. On a composed preview, in whatever state earlier events have left it, an
  input of value \<open>v\<close> on the zoom slider of panel \<open>i\<close> of format \<open>fi\<close> leaves that panel's
  adjustment at \<open>{panX: 0, panY: 0, scale: v}\<close>, so a pan stored by dragging is gone, and
  re-renders the canvas of that format from the new adjustments; the canvases of the
  other formats stay as they were.
\<close>

theorem C10_slider_resets_pan:
  assumes "selectedLayout s = Some l" "compose e s = Inr s0" "run evs s0 = Inr s1"
    and "fi < length OUTPUT_FORMATS" "i < photoCount l"
  shows "\<exists>s2. fire (SliderInput fi i v) s1 = Inr s2
       \<and> adjustments s2 = adjustments s1
       \<and> heap s2 (adjustments s2 ! fi ! i) = \<lparr>panX = 0, panY = 0, scale = v\<rparr>
       \<and> layers (canvasEls s2 ! fi) = paintedLayers s2 fi (OUTPUT_FORMATS ! fi) (photoCount l)
       \<and> (\<forall>fj < length OUTPUT_FORMATS. fj \<noteq> fi \<longrightarrow> canvasEls s2 ! fj = canvasEls s1 ! fj)"
proof -
  let ?r = "adjustments s1 ! fi ! i"
  from compose_result [OF assms(1,2)] have "composed l s0" by blast
  from run_composed [OF this assms(3)] have c1: "composed l s1" .
  note sh = composed_shape [OF c1 assms(4)]
  define hp where "hp = (heap s1)(?r := (heap s1 ?r)\<lparr>scale := v, panX := 0, panY := 0\<rparr>)"
  define s2 where "s2 = s1\<lparr>heap := hp,
            canvasEls := list_update (canvasEls s1) fi
              ((canvasEls s1 ! fi)
                 \<lparr>layers := paintedLayers (s1\<lparr>heap := hp\<rparr>) fi (OUTPUT_FORMATS ! fi)
                              (photoCount l)\<rparr>)\<rparr>"
  have f: "fire (SliderInput fi i v) s1 = Inr s2"
    unfolding s2_def hp_def by (rule fire_SliderInput_composed [OF c1 assms(4,5)])
  have a: "adjustments s2 = adjustments s1" by (simp add: s2_def)
  have h: "heap s2 (adjustments s2 ! fi ! i) = \<lparr>panX = 0, panY = 0, scale = v\<rparr>"
    by (simp add: s2_def hp_def)
  have p: "paintedLayers s2 fi (OUTPUT_FORMATS ! fi) (photoCount l)
      = paintedLayers (s1\<lparr>heap := hp\<rparr>) fi (OUTPUT_FORMATS ! fi) (photoCount l)"
    by (rule paintedLayers_cong) (simp_all add: s2_def sh)
  have lay: "layers (canvasEls s2 ! fi) = paintedLayers s2 fi (OUTPUT_FORMATS ! fi) (photoCount l)"
    unfolding p using sh(1) by (simp add: s2_def)
  have oth: "\<forall>fj < length OUTPUT_FORMATS. fj \<noteq> fi \<longrightarrow> canvasEls s2 ! fj = canvasEls s1 ! fj"
    by (simp add: s2_def)
  from f a h lay oth show ?thesis by blast
qed

lemma example_drag:
  "\<exists>s0 s1. compose example_env example_state = Inr s0
     \<and> run [MouseDown 0 100 100 0 1000, MouseMove 150 100 1000] s0 = Inr s1
     \<and> adjustments s1 = adjustments s0
     \<and> heap s1 (adjustments s1 ! 0 ! 0) = \<lparr>panX = 100, panY = 0, scale = 1\<rparr>
     \<and> heap s1 (adjustments s1 ! 0 ! 1) = \<lparr>panX = 0, panY = 0, scale = 1\<rparr>"
proof -
  let ?l = "LAYOUTS ! 0"
  from example_composes obtain s0 where c: "compose example_env example_state = Inr s0" ..
  from compose_result [OF example_layout(1) c] have c0: "composed ?l s0" by blast
  then have l0: "selectedLayout s0 = Some ?l" by (simp add: composed_def)
  have f0: "(0::nat) < length OUTPUT_FORMATS" by (simp add: formats_length)
  have hit: "getPanelIndex (100 - 0) 1000 (width (OUTPUT_FORMATS ! 0)) s0 = Inr (int 0)"
    unfolding getPanelIndex_layout [OF l0] using example_hit by simp
  have h0: "heap s0 (adjustments s0 ! 0 ! 0) = \<lparr>panX = 0, panY = 0, scale = 1\<rparr>"
    using compose_defaults(1) [OF example_layout(1) c f0] by (simp add: example_layout(2))
  define d where "d = \<lparr>formatIndex = 0, formatWidth = width (OUTPUT_FORMATS ! 0),
                        panelIndex = 0, startMouseX = 100, startMouseY = 100,
                        startPanX = 0, startPanY = (0::real)\<rparr>"
  define s2 where "s2 = s0\<lparr>drag := Some d\<rparr>"
  from fire_MouseDown_hit(2) [OF c0 f0 hit, of 100]
  have f2: "fire (MouseDown 0 100 100 0 1000) s0 = Inr s2"
    by (simp add: s2_def d_def h0)
  have c2: "composed ?l s2" unfolding s2_def by (rule composed_drag [OF c0])
  have d2: "drag s2 = Some d" by (simp add: s2_def)
  have dfi: "formatIndex d < length OUTPUT_FORMATS" and dp: "panelIndex d < photoCount ?l"
    by (simp_all add: d_def formats_length example_layout(2))
  have nz: "(1000::real) \<noteq> 0" by simp
  from fire_MouseMove_composed [OF c2 d2 dfi dp nz, of 150 100]
  obtain s3 where f3: "fire (MouseMove 150 100 1000) s2 = Inr s3"
    and a3: "adjustments s3 = adjustments s0"
    and h3: "heap s3 (adjustments s0 ! 0 ! 0)
        = (heap s0 (adjustments s0 ! 0 ! 0))
            \<lparr>panX := (150 - 100) * (real (width (OUTPUT_FORMATS ! 0)) / 1000), panY := 0\<rparr>"
    and o3: "\<forall>r. r \<noteq> adjustments s0 ! 0 ! 0 \<longrightarrow> heap s3 r = heap s0 r"
    by (simp add: s2_def d_def)
  have h: "heap s3 (adjustments s3 ! 0 ! 0) = \<lparr>panX = 100, panY = 0, scale = 1\<rparr>"
    unfolding a3 h3 h0 by (simp add: OUTPUT_FORMATS_def)
  from c0 have "distinct (concat (adjustments s0))" by (simp add: composed_def)
  from distinct_concat_row [OF this composed_shape(4) [OF c0 f0]]
  have "distinct (adjustments s0 ! 0)" .
  moreover have "length (adjustments s0 ! 0) = 2"
    using composed_shape(5) [OF c0 f0] by (simp add: example_layout(2))
  ultimately have "adjustments s0 ! 0 ! 1 \<noteq> adjustments s0 ! 0 ! 0"
    by (simp add: nth_eq_iff_index_eq)
  with o3 have "heap s3 (adjustments s0 ! 0 ! 1) = heap s0 (adjustments s0 ! 0 ! 1)" by blast
  also have "\<dots> = \<lparr>panX = 0, panY = 0, scale = 1\<rparr>"
    using compose_defaults(1) [OF example_layout(1) c f0, of 1] by (simp add: example_layout(2))
  finally have h1: "heap s3 (adjustments s3 ! 0 ! 1) = \<lparr>panX = 0, panY = 0, scale = 1\<rparr>"
    by (simp add: a3)
  from c f2 f3 a3 h h1 show ?thesis
    by (intro exI [of _ s0] exI [of _ s3]) simp
qed

theorem C10_slider_resets_pan_witness:
  "\<exists>s0 s1 s2. selectedLayout example_state = Some (LAYOUTS ! 0)
     \<and> compose example_env example_state = Inr s0
     \<and> run [MouseDown 0 100 100 0 1000, MouseMove 150 100 1000] s0 = Inr s1
     \<and> (0::nat) < length OUTPUT_FORMATS \<and> (0::nat) < photoCount (LAYOUTS ! 0)
     \<and> panX (heap s1 (adjustments s1 ! 0 ! 0)) = 100
     \<and> fire (SliderInput 0 0 2) s1 = Inr s2
     \<and> heap s2 (adjustments s2 ! 0 ! 0) = \<lparr>panX = 0, panY = 0, scale = 2\<rparr>"
proof -
  from example_drag obtain s0 s3 where
    c: "compose example_env example_state = Inr s0"
    and r: "run [MouseDown 0 100 100 0 1000, MouseMove 150 100 1000] s0 = Inr s3"
    and h: "heap s3 (adjustments s3 ! 0 ! 0) = \<lparr>panX = 100, panY = 0, scale = 1\<rparr>"
    by blast
  from h have px: "panX (heap s3 (adjustments s3 ! 0 ! 0)) = 100" by simp
  have f0: "(0::nat) < length OUTPUT_FORMATS" by (simp add: formats_length)
  have p0: "(0::nat) < photoCount (LAYOUTS ! 0)" by (simp add: example_layout(2))
  from C10_slider_resets_pan [OF example_layout(1) c r f0 p0, of 2]
  obtain s4 where "fire (SliderInput 0 0 2) s3 = Inr s4"
    "heap s4 (adjustments s4 ! 0 ! 0) = \<lparr>panX = 0, panY = 0, scale = 2\<rparr>"
    by blast
  with c r f0 p0 px example_layout(1) show ?thesis
    by (intro exI [of _ s0] exI [of _ s3] exI [of _ s4]) simp
qed

lemma compose_layers:
  assumes "selectedLayout s = Some l" "compose e s = Inr s0" "fi < length OUTPUT_FORMATS"
  shows "layers (canvasEls s0 ! fi) = paintedLayers s0 fi (OUTPUT_FORMATS ! fi) (photoCount l)"
proof -
  from compose_result [OF assms(1,2)] obtain els cs where
    s0: "s0 = (compose_begin l s)
                  \<lparr>imageEls := els, canvasEls := cs,
                   adjControls := map (map Some) (adjustments (compose_begin l s)),
                   composited := True, btnComposeDisabled := False\<rparr>"
    and lay: "\<forall>fi < length OUTPUT_FORMATS.
                 layers (cs ! fi) = paintedLayers s0 fi (OUTPUT_FORMATS ! fi) (photoCount l)"
    by blast
  have "canvasEls s0 = cs" by (simp add: s0)
  with lay assms(3) show ?thesis by simp
qed

text \<open>
  Claim C9. On a composed preview, in whatever state earlier events have left it, a click
  on the reset button of panel \<open>i\<close> of format \<open>fi\<close> leaves that panel's adjustment at
  \<open>{panX: 0, panY: 0, scale: 1}\<close>, the value it had when \<open>compose\<close> created it, and
  re-renders the canvas of that format only. What the canvas then shows for panel \<open>i\<close> is
  what the first rendering after \<open>compose\<close> showed for it; when the other panels of the
  format are at their defaults too, the whole canvas is as after \<open>compose\<close>.
\<close>

theorem C9_reset_restores:
  assumes "selectedLayout s = Some l" "compose e s = Inr s0" "run evs s0 = Inr s1"
    and "fi < length OUTPUT_FORMATS" "i < photoCount l"
  shows "\<exists>s2. fire (ResetClick fi i) s1 = Inr s2
       \<and> adjustments s2 = adjustments s0
       \<and> heap s2 (adjustments s2 ! fi ! i) = \<lparr>panX = 0, panY = 0, scale = 1\<rparr>
       \<and> heap s0 (adjustments s0 ! fi ! i) = \<lparr>panX = 0, panY = 0, scale = 1\<rparr>
       \<and> layers (canvasEls s2 ! fi) ! Suc i = layers (canvasEls s0 ! fi) ! Suc i
       \<and> ((\<forall>j < photoCount l. j \<noteq> i \<longrightarrow>
              heap s1 (adjustments s1 ! fi ! j) = \<lparr>panX = 0, panY = 0, scale = 1\<rparr>)
            \<longrightarrow> canvasEls s2 ! fi = canvasEls s0 ! fi)
       \<and> (\<forall>fj < length OUTPUT_FORMATS. fj \<noteq> fi \<longrightarrow> canvasEls s2 ! fj = canvasEls s1 ! fj)"
proof -
  let ?fmt = "OUTPUT_FORMATS ! fi"
  let ?r = "adjustments s1 ! fi ! i"
  let ?dflt = "\<lparr>panX = 0, panY = 0, scale = 1::real\<rparr>"
  from compose_result [OF assms(1,2)] have c0: "composed l s0" by blast
  from run_composed [OF c0 assms(3)] have c1: "composed l s1" .
  note sh0 = composed_shape [OF c0 assms(4)] and sh1 = composed_shape [OF c1 assms(4)]
  from run_changes [OF assms(3)] obtain hp1 cs1 dg1 where
    s1: "s1 = s0\<lparr>heap := hp1, canvasEls := cs1, drag := dg1\<rparr>" by blast
  then have a1: "adjustments s1 = adjustments s0" and fp1: "focalPoints s1 = focalPoints s0"
    and ty1: "targetFocalY s1 = targetFocalY s0" and im1: "imageEls s1 = imageEls s0"
    by simp_all
  define hp where "hp = (heap s1)(?r := (heap s1 ?r)\<lparr>panX := 0, panY := 0, scale := 1\<rparr>)"
  define s2 where "s2 = s1\<lparr>heap := hp,
            canvasEls := list_update (canvasEls s1) fi
              ((canvasEls s1 ! fi)
                 \<lparr>layers := paintedLayers (s1\<lparr>heap := hp\<rparr>) fi ?fmt (photoCount l)\<rparr>)\<rparr>"
  have f: "fire (ResetClick fi i) s1 = Inr s2"
    unfolding s2_def hp_def by (rule fire_ResetClick_composed [OF c1 assms(4,5)])
  have a2: "adjustments s2 = adjustments s0" by (simp add: s2_def a1)
  have h2: "heap s2 (adjustments s2 ! fi ! i) = ?dflt"
    by (simp add: s2_def hp_def)
  have h0: "heap s0 (adjustments s0 ! fi ! j) = ?dflt" if "j < photoCount l" for j
    by (rule compose_defaults(1) [OF assms(1,2,4) that])
  have p2: "paintedLayers s2 fi ?fmt (photoCount l)
      = paintedLayers (s1\<lparr>heap := hp\<rparr>) fi ?fmt (photoCount l)"
    by (rule paintedLayers_cong) (simp_all add: s2_def sh1)
  have lay2: "layers (canvasEls s2 ! fi) = paintedLayers s2 fi ?fmt (photoCount l)"
    unfolding p2 using sh1(1) by (simp add: s2_def)
  have lay0: "layers (canvasEls s0 ! fi) = paintedLayers s0 fi ?fmt (photoCount l)"
    by (rule compose_layers [OF assms(1,2,4)])
  have st2: "focalPoints s2 = focalPoints s0" "targetFocalY s2 = targetFocalY s0"
    "imageEls s2 = imageEls s0"
    by (simp_all add: s2_def fp1 ty1 im1)
  have panel: "layers (canvasEls s2 ! fi) ! Suc i = layers (canvasEls s0 ! fi) ! Suc i"
    unfolding lay2 lay0 paintedLayers_nth [OF assms(5)]
    by (simp add: drawPanel_cong [OF st2(1,2)] st2(3) h2 h0 [OF assms(5)])
  have whole: "canvasEls s2 ! fi = canvasEls s0 ! fi"
    if others: "\<forall>j < photoCount l. j \<noteq> i \<longrightarrow> heap s1 (adjustments s1 ! fi ! j) = ?dflt"
  proof -
    from c0 have "distinct (concat (adjustments s0))" by (simp add: composed_def)
    from distinct_concat_row [OF this sh0(4)] have dr: "distinct (adjustments s0 ! fi)" .
    have "heap s2 r = heap s0 r" if "r \<in> set (adjustments s0 ! fi)" for r
    proof -
      from that obtain j where j: "j < photoCount l" "r = adjustments s0 ! fi ! j"
        using sh0(5) by (auto simp: in_set_conv_nth)
      show ?thesis
      proof (cases "j = i")
        case True
        with j h2 h0 [OF assms(5)] a2 show ?thesis by simp
      next
        case False
        with dr j assms(5) sh0(5) have "adjustments s0 ! fi ! j \<noteq> adjustments s0 ! fi ! i"
          by (simp add: nth_eq_iff_index_eq)
        then have "heap s2 r = heap s1 r"
          by (simp add: s2_def hp_def j(2) a1)
        also have "\<dots> = ?dflt" using others j False by (simp add: a1)
        also have "\<dots> = heap s0 r" using h0 [OF j(1)] j(2) by simp
        finally show ?thesis .
      qed
    qed
    then have "paintedLayers s2 fi ?fmt (photoCount l) = paintedLayers s0 fi ?fmt (photoCount l)"
      by (intro paintedLayers_cong) (simp_all add: st2 a2 sh0)
    with lay2 lay0 have "layers (canvasEls s2 ! fi) = layers (canvasEls s0 ! fi)" by simp
    moreover have "canvas_width (canvasEls s2 ! fi) = canvas_width (canvasEls s0 ! fi)"
      and "canvas_height (canvasEls s2 ! fi) = canvas_height (canvasEls s0 ! fi)"
      using sh1(1,2,3) sh0(2,3) by (simp_all add: s2_def)
    ultimately show ?thesis by (intro canvas.equality) simp_all
  qed
  have oth: "\<forall>fj < length OUTPUT_FORMATS. fj \<noteq> fi \<longrightarrow> canvasEls s2 ! fj = canvasEls s1 ! fj"
    by (simp add: s2_def)
  from f a2 h2 h0 [OF assms(5)] panel whole oth show ?thesis by blast
qed

theorem C9_reset_restores_witness:
  "\<exists>s0 s1 s2. selectedLayout example_state = Some (LAYOUTS ! 0)
     \<and> compose example_env example_state = Inr s0
     \<and> run [MouseDown 0 100 100 0 1000, MouseMove 150 100 1000] s0 = Inr s1
     \<and> (0::nat) < length OUTPUT_FORMATS \<and> (0::nat) < photoCount (LAYOUTS ! 0)
     \<and> heap s1 (adjustments s1 ! 0 ! 0) = \<lparr>panX = 100, panY = 0, scale = 1\<rparr>
     \<and> fire (ResetClick 0 0) s1 = Inr s2
     \<and> heap s2 (adjustments s2 ! 0 ! 0) = \<lparr>panX = 0, panY = 0, scale = 1\<rparr>
     \<and> layers (canvasEls s2 ! 0) ! Suc 0 = layers (canvasEls s0 ! 0) ! Suc 0
     \<and> heap s1 (adjustments s1 ! 0 ! 1) = \<lparr>panX = 0, panY = 0, scale = 1\<rparr>
     \<and> canvasEls s2 ! 0 = canvasEls s0 ! 0"
proof -
  from example_drag obtain s0 s1 where
    c: "compose example_env example_state = Inr s0"
    and r: "run [MouseDown 0 100 100 0 1000, MouseMove 150 100 1000] s0 = Inr s1"
    and h: "heap s1 (adjustments s1 ! 0 ! 0) = \<lparr>panX = 100, panY = 0, scale = 1\<rparr>"
    and h1: "heap s1 (adjustments s1 ! 0 ! 1) = \<lparr>panX = 0, panY = 0, scale = 1\<rparr>"
    by blast
  have f0: "(0::nat) < length OUTPUT_FORMATS" by (simp add: formats_length)
  have p0: "(0::nat) < photoCount (LAYOUTS ! 0)" by (simp add: example_layout(2))
  have others: "\<forall>j < photoCount (LAYOUTS ! 0). j \<noteq> 0 \<longrightarrow>
      heap s1 (adjustments s1 ! 0 ! j) = \<lparr>panX = 0, panY = 0, scale = 1\<rparr>"
    using h1 by (simp add: example_layout(2) less_Suc_eq numeral_2_eq_2)
  from C9_reset_restores [OF example_layout(1) c r f0 p0] others
  obtain s2 where "fire (ResetClick 0 0) s1 = Inr s2"
    "heap s2 (adjustments s2 ! 0 ! 0) = \<lparr>panX = 0, panY = 0, scale = 1\<rparr>"
    "layers (canvasEls s2 ! 0) ! Suc 0 = layers (canvasEls s0 ! 0) ! Suc 0"
    "canvasEls s2 ! 0 = canvasEls s0 ! 0"
    by blast
  with c r f0 p0 h h1 example_layout(1) show ?thesis
    by (intro exI [of _ s0] exI [of _ s1] exI [of _ s2]) simp
qed

section \<open>Hit test and renderer\<close>

lemma fire_MouseDown_miss:
  assumes "fi < length OUTPUT_FORMATS" "fi < length (canvasEls s)"
    and "getPanelIndex (clientX - rectLeft) rectWidth (width (OUTPUT_FORMATS ! fi)) s = Inr (- 1)"
  shows "fire (MouseDown fi clientX clientY rectLeft rectWidth) s = Inr s"
  using assms by (simp add: canvas_mousedown_def)

text \<open>
  Claim C7. On a composed preview, for a press on the displayed canvas of format \<open>fi\<close>
  (bounding rectangle of width \<open>rectWidth\<close>, not 0), let \<open>cx\<close> be the x-coordinate of the
  press converted to canvas space. \<open>renderForFormat\<close> paints the background and then one
  panel for each photo; panel \<open>i\<close> has the clip rectangle that starts at
  \<open>i * (slot width + divider width)\<close> and is one slot wide, where the slot width is
  \<open>floor((formatWidth - dividerWidth * (panelCount - 1)) / panelCount)\<close>.
  \<open>getPanelIndex\<close> returns \<open>i\<close> exactly when \<open>cx\<close> lies in the x-range of the clip
  rectangle of panel \<open>i\<close>, and -1 exactly when it lies in none (on a divider or outside);
  a press for which it returns -1 changes nothing in the state, so no drag starts.
\<close>

theorem C7_hit_test_agrees:
  assumes "selectedLayout s = Some l" "compose e s = Inr s0" "run evs s0 = Inr s1"
    and "fi < length OUTPUT_FORMATS" "rectWidth \<noteq> 0"
  shows "(let fmt = OUTPUT_FORMATS ! fi;
              cx = (clientX - rectLeft) * (real (width fmt) / rectWidth);
              slotW = slotWidth (width fmt) (photoCount l)
          in \<exists>s2 k. renderForFormat fi fmt s1 = Inr s2
               \<and> getPanelIndex (clientX - rectLeft) rectWidth (width fmt) s1 = Inr k
               \<and> length (layers (canvasEls s2 ! fi)) = Suc (photoCount l)
               \<and> (\<forall>i < photoCount l. \<exists>p. layers (canvasEls s2 ! fi) ! Suc i = Panel p
                      \<and> clip_x p = real i * (slotW + real DIVIDER_width) \<and> clip_w p = slotW
                      \<and> clip_y p = 0 \<and> clip_h p = real (height fmt)
                      \<and> (k = int i \<longleftrightarrow> clip_x p \<le> cx \<and> cx < clip_x p + clip_w p))
               \<and> (k = - 1 \<or> (\<exists>i < photoCount l. k = int i))
               \<and> (k = - 1 \<longleftrightarrow>
                    (\<forall>i < photoCount l. \<not> (real i * (slotW + real DIVIDER_width) \<le> cx
                          \<and> cx < real i * (slotW + real DIVIDER_width) + slotW)))
               \<and> (k = - 1 \<longrightarrow>
                    fire (MouseDown fi clientX clientY rectLeft rectWidth) s1 = Inr s1))"
proof -
  define fmt where "fmt = OUTPUT_FORMATS ! fi"
  define cx where "cx = (clientX - rectLeft) * (real (width fmt) / rectWidth)"
  define slotW where "slotW = slotWidth (width fmt) (photoCount l)"
  define k where "k = getPanelIndex_loop cx slotW (photoCount l) 0 0"
  from compose_result [OF assms(1,2)] have "composed l s0" by blast
  from run_composed [OF this assms(3)] have c1: "composed l s1" .
  then have l1: "selectedLayout s1 = Some l" by (simp add: composed_def)
  note sh = composed_shape [OF c1 assms(4)]
  define s2 where "s2 = s1\<lparr>canvasEls := list_update (canvasEls s1) fi
              ((canvasEls s1 ! fi)\<lparr>layers := paintedLayers s1 fi fmt (photoCount l)\<rparr>)\<rparr>"
  have r: "renderForFormat fi fmt s1 = Inr s2"
    unfolding s2_def fmt_def by (rule renderForFormat_composed [OF c1 assms(4)])
  have g: "getPanelIndex (clientX - rectLeft) rectWidth (width fmt) s1 = Inr k"
    unfolding getPanelIndex_layout [OF l1] using assms(5)
    by (simp add: k_def cx_def slotW_def)
  have lay: "layers (canvasEls s2 ! fi) = paintedLayers s1 fi fmt (photoCount l)"
    using sh(1) by (simp add: s2_def)
  have len: "length (layers (canvasEls s2 ! fi)) = Suc (photoCount l)"
    by (simp add: lay paintedLayers_def)
  note iff = getPanelIndex_loop_iff [of "photoCount l" cx slotW, folded k_def]
  have panels: "\<forall>i < photoCount l. \<exists>p. layers (canvasEls s2 ! fi) ! Suc i = Panel p
                      \<and> clip_x p = real i * (slotW + real DIVIDER_width) \<and> clip_w p = slotW
                      \<and> clip_y p = 0 \<and> clip_h p = real (height fmt)
                      \<and> (k = int i \<longleftrightarrow> clip_x p \<le> cx \<and> cx < clip_x p + clip_w p)"
  proof (intro allI impI)
    fix i assume i: "i < photoCount l"
    define p where "p = drawPanel s1 (imageEls s1 ! i) (real i * (slotW + real DIVIDER_width)) 0
                slotW (real (height fmt)) i (heap s1 (adjustments s1 ! fi ! i))"
    have 1: "layers (canvasEls s2 ! fi) ! Suc i = Panel p"
      unfolding lay paintedLayers_nth [OF i] by (simp add: p_def slotW_def)
    have 2: "clip_x p = real i * (slotW + real DIVIDER_width)" "clip_w p = slotW"
      "clip_y p = 0" "clip_h p = real (height fmt)"
      by (simp_all add: p_def drawPanel_def Let_def)
    from iff i have "k = int i \<longleftrightarrow> real i * (slotW + real DIVIDER_width) \<le> cx
             \<and> cx < real i * (slotW + real DIVIDER_width) + slotW"
      by blast
    with 1 2 show "\<exists>p. layers (canvasEls s2 ! fi) ! Suc i = Panel p
                      \<and> clip_x p = real i * (slotW + real DIVIDER_width) \<and> clip_w p = slotW
                      \<and> clip_y p = 0 \<and> clip_h p = real (height fmt)
                      \<and> (k = int i \<longleftrightarrow> clip_x p \<le> cx \<and> cx < clip_x p + clip_w p)"
      by (intro exI [of _ p]) simp
  qed
  have miss: "fire (MouseDown fi clientX clientY rectLeft rectWidth) s1 = Inr s1" if "k = - 1"
    using fire_MouseDown_miss [OF assms(4) sh(1), of clientX rectLeft rectWidth clientY] g that
    by (simp add: fmt_def)
  from iff have range: "k = - 1 \<or> (\<exists>i < photoCount l. k = int i)"
    and none: "k = - 1 \<longleftrightarrow>
                    (\<forall>i < photoCount l. \<not> (real i * (slotW + real DIVIDER_width) \<le> cx
                          \<and> cx < real i * (slotW + real DIVIDER_width) + slotW))"
    by blast+
  have "\<exists>s2 k. renderForFormat fi fmt s1 = Inr s2
               \<and> getPanelIndex (clientX - rectLeft) rectWidth (width fmt) s1 = Inr k
               \<and> length (layers (canvasEls s2 ! fi)) = Suc (photoCount l)
               \<and> (\<forall>i < photoCount l. \<exists>p. layers (canvasEls s2 ! fi) ! Suc i = Panel p
                      \<and> clip_x p = real i * (slotW + real DIVIDER_width) \<and> clip_w p = slotW
                      \<and> clip_y p = 0 \<and> clip_h p = real (height fmt)
                      \<and> (k = int i \<longleftrightarrow> clip_x p \<le> cx \<and> cx < clip_x p + clip_w p))
               \<and> (k = - 1 \<or> (\<exists>i < photoCount l. k = int i))
               \<and> (k = - 1 \<longleftrightarrow>
                    (\<forall>i < photoCount l. \<not> (real i * (slotW + real DIVIDER_width) \<le> cx
                          \<and> cx < real i * (slotW + real DIVIDER_width) + slotW)))
               \<and> (k = - 1 \<longrightarrow>
                    fire (MouseDown fi clientX clientY rectLeft rectWidth) s1 = Inr s1)"
    using r g len panels range none miss by (intro exI [of _ s2] exI [of _ k]) blast
  then show ?thesis
    unfolding Let_def fmt_def [symmetric] cx_def [symmetric] slotW_def [symmetric] .
qed


lemma example_slot:
  "slotWidth 2000 2 = 994" "real DIVIDER_width = 12" "width (OUTPUT_FORMATS ! 0) = 2000"
  by (simp_all add: OUTPUT_FORMATS_def slotWidth_def DIVIDER_width_def)

lemma example_miss:
  "getPanelIndex_loop (500 * (real (width (OUTPUT_FORMATS ! 0)) / 1000))
     (slotWidth (width (OUTPUT_FORMATS ! 0)) (photoCount (LAYOUTS ! 0)))
     (photoCount (LAYOUTS ! 0)) 0 0 = - 1"
  by (simp add: example_slot example_layout(2) getPanelIndex_loop.simps Let_def)

theorem C7_hit_test_agrees_witness:
  "\<exists>s0 s2. selectedLayout example_state = Some (LAYOUTS ! 0)
     \<and> compose example_env example_state = Inr s0
     \<and> run [] s0 = Inr s0
     \<and> (0::nat) < length OUTPUT_FORMATS \<and> (1000::real) \<noteq> 0
     \<and> renderForFormat 0 (OUTPUT_FORMATS ! 0) s0 = Inr s2
     \<and> getPanelIndex (500 - 0) 1000 (width (OUTPUT_FORMATS ! 0)) s0 = Inr (- 1)
     \<and> fire (MouseDown 0 500 100 0 1000) s0 = Inr s0
     \<and> (\<exists>p. layers (canvasEls s2 ! 0) ! Suc 0 = Panel p \<and> clip_x p = 0 \<and> clip_w p = 994
            \<and> \<not> (clip_x p \<le> 500 * (2000 / 1000) \<and> 500 * (2000 / 1000) < clip_x p + clip_w p))
     \<and> (\<exists>p. layers (canvasEls s2 ! 0) ! Suc 1 = Panel p \<and> clip_x p = 1006 \<and> clip_w p = 994
            \<and> \<not> (clip_x p \<le> 500 * (2000 / 1000) \<and> 500 * (2000 / 1000) < clip_x p + clip_w p))"
proof -
  from example_composes obtain s0 where c: "compose example_env example_state = Inr s0" ..
  from compose_result [OF example_layout(1) c] have c0: "composed (LAYOUTS ! 0) s0" by blast
  then have l0: "selectedLayout s0 = Some (LAYOUTS ! 0)" by (simp add: composed_def)
  have f0: "(0::nat) < length OUTPUT_FORMATS" by (simp add: formats_length)
  have r: "run [] s0 = Inr s0" by simp
  have nz: "(1000::real) \<noteq> 0" by simp
  have miss: "getPanelIndex (500 - 0) 1000 (width (OUTPUT_FORMATS ! 0)) s0 = Inr (- 1)"
    unfolding getPanelIndex_layout [OF l0] using example_miss by simp
  from C7_hit_test_agrees [OF example_layout(1) c r f0 nz, of 500 0 100, unfolded Let_def]
  obtain s2 k where
    ren: "renderForFormat 0 (OUTPUT_FORMATS ! 0) s0 = Inr s2"
    and k: "getPanelIndex (500 - 0) 1000 (width (OUTPUT_FORMATS ! 0)) s0 = Inr k"
    and panels: "\<forall>i < photoCount (LAYOUTS ! 0). \<exists>p. layers (canvasEls s2 ! 0) ! Suc i = Panel p
        \<and> clip_x p = real i * (slotWidth (width (OUTPUT_FORMATS ! 0)) (photoCount (LAYOUTS ! 0))
                                + real DIVIDER_width)
        \<and> clip_w p = slotWidth (width (OUTPUT_FORMATS ! 0)) (photoCount (LAYOUTS ! 0))
        \<and> clip_y p = 0 \<and> clip_h p = real (height (OUTPUT_FORMATS ! 0))
        \<and> (k = int i \<longleftrightarrow> clip_x p \<le> (500 - 0) * (real (width (OUTPUT_FORMATS ! 0)) / 1000)
              \<and> (500 - 0) * (real (width (OUTPUT_FORMATS ! 0)) / 1000) < clip_x p + clip_w p)"
    and down: "k = - 1 \<longrightarrow> fire (MouseDown 0 500 100 0 1000) s0 = Inr s0"
    by blast
  from k miss have k1: "k = - 1" by simp
  from panels [rule_format, of 0] k1
  have p0: "\<exists>p. layers (canvasEls s2 ! 0) ! Suc 0 = Panel p \<and> clip_x p = 0 \<and> clip_w p = 994
            \<and> \<not> (clip_x p \<le> 500 * (2000 / 1000) \<and> 500 * (2000 / 1000) < clip_x p + clip_w p)"
    by (auto simp: example_slot example_layout(2))
  from panels [rule_format, of 1] k1
  have p1: "\<exists>p. layers (canvasEls s2 ! 0) ! Suc 1 = Panel p \<and> clip_x p = 1006 \<and> clip_w p = 994
            \<and> \<not> (clip_x p \<le> 500 * (2000 / 1000) \<and> 500 * (2000 / 1000) < clip_x p + clip_w p)"
    by (auto simp: example_slot example_layout(2))
  from c r f0 nz ren miss down k1 p0 p1 example_layout(1) show ?thesis
    by (intro exI [of _ s0] exI [of _ s2]) simp
qed

section \<open>Independence of the formats\<close>

lemma fire_paints:
  assumes "composed l s" "fire ev s = Inr s'"
  shows "(heap s' = heap s \<and> canvasEls s' = canvasEls s)
       \<or> (\<exists>fi i a. affected_format s ev = Some fi
             \<and> fi < length OUTPUT_FORMATS \<and> i < photoCount l
             \<and> heap s' = (heap s)(adjustments s ! fi ! i := a)
             \<and> canvasEls s' = list_update (canvasEls s) fi
                  ((canvasEls s ! fi)
                     \<lparr>layers := paintedLayers s' fi (OUTPUT_FORMATS ! fi) (photoCount l)\<rparr>))"
proof -
  from assms(1) have la: "length (adjustments s) = length OUTPUT_FORMATS"
    unfolding composed_def by (metis length_map)
  have upd: "?thesis"
    if fi: "fi < length OUTPUT_FORMATS" and i: "i < photoCount l"
      and af: "affected_format s ev = Some fi"
      and s': "s' = s\<lparr>heap := (heap s)(adjustments s ! fi ! i := a),
                canvasEls := list_update (canvasEls s) fi
                  ((canvasEls s ! fi)
                     \<lparr>layers := paintedLayers (s\<lparr>heap := (heap s)(adjustments s ! fi ! i := a)\<rparr>)
                                  fi (OUTPUT_FORMATS ! fi) (photoCount l)\<rparr>)\<rparr>"
    for fi i a
  proof -
    note sh = composed_shape [OF assms(1) fi]
    have "paintedLayers s' fi (OUTPUT_FORMATS ! fi) (photoCount l)
        = paintedLayers (s\<lparr>heap := (heap s)(adjustments s ! fi ! i := a)\<rparr>)
            fi (OUTPUT_FORMATS ! fi) (photoCount l)"
      by (rule paintedLayers_cong) (simp_all add: s' sh)
    with s' have "heap s' = (heap s)(adjustments s ! fi ! i := a)
        \<and> canvasEls s' = list_update (canvasEls s) fi
                  ((canvasEls s ! fi)
                     \<lparr>layers := paintedLayers s' fi (OUTPUT_FORMATS ! fi) (photoCount l)\<rparr>)"
      by simp
    with fi i af show ?thesis by blast
  qed
  show ?thesis
  proof (cases ev)
    case (MouseDown fi clientX clientY rectLeft rectWidth)
    with assms(2) have
      "canvas_mousedown fi (OUTPUT_FORMATS ! fi) clientX clientY rectLeft rectWidth s = Inr s'"
      by (simp split: if_splits)
    from canvas_mousedown_result [OF this] show ?thesis by auto
  next
    case (MouseMove clientX clientY rectWidth)
    show ?thesis
    proof (cases "drag s")
      case None
      with assms(2) MouseMove show ?thesis by (simp add: window_mousemove_def)
    next
      case (Some d)
      from assms(2) MouseMove have "window_mousemove clientX clientY rectWidth s = Inr s'" by simp
      from window_mousemove_result [OF this Some]
      have nz: "rectWidth \<noteq> 0" and f: "formatIndex d < length (adjustments s)"
        and p: "panelIndex d < length (adjustments s ! formatIndex d)"
        by blast+
      from f la have f': "formatIndex d < length OUTPUT_FORMATS" by simp
      from p composed_shape(5) [OF assms(1) f'] have p': "panelIndex d < photoCount l" by simp
      from fire_MouseMove_composed [OF assms(1) Some f' p' nz, of clientX clientY] assms(2) MouseMove
      show ?thesis
        by (intro upd [OF f' p', where a = "(heap s (adjustments s ! formatIndex d ! panelIndex d))
               \<lparr>panX := startPanX d + (clientX - startMouseX d) * (real (formatWidth d) / rectWidth),
                panY := startPanY d + (clientY - startMouseY d) * (real (formatWidth d) / rectWidth)\<rparr>"])
           (simp_all add: Some)
    qed
  next
    case MouseUp
    with assms(2) show ?thesis by (auto simp: window_mouseup_def split: option.splits)
  next
    case (SliderInput fi i v)
    with assms(2) have ex: "fi < length (adjControls s)" "i < length (adjControls s ! fi)"
      by (simp_all split: if_splits)
    from composed_control [OF assms(1) ex]
    have rng: "fi < length (adjustments s)" "i < length (adjustments s ! fi)" by simp_all
    from rng(1) la have f': "fi < length OUTPUT_FORMATS" by simp
    from rng(2) composed_shape(5) [OF assms(1) f'] have p': "i < photoCount l" by simp
    from fire_SliderInput_composed [OF assms(1) f' p', of v] assms(2) SliderInput
    show ?thesis
      by (intro upd [OF f' p', where a = "(heap s (adjustments s ! fi ! i))
             \<lparr>scale := v, panX := 0, panY := 0\<rparr>"]) simp_all
  next
    case (ResetClick fi i)
    with assms(2) have ex: "fi < length (adjControls s)" "i < length (adjControls s ! fi)"
      by (simp_all split: if_splits)
    from composed_control [OF assms(1) ex]
    have rng: "fi < length (adjustments s)" "i < length (adjustments s ! fi)" by simp_all
    from rng(1) la have f': "fi < length OUTPUT_FORMATS" by simp
    from rng(2) composed_shape(5) [OF assms(1) f'] have p': "i < photoCount l" by simp
    from fire_ResetClick_composed [OF assms(1) f' p'] assms(2) ResetClick
    show ?thesis
      by (intro upd [OF f' p', where a = "(heap s (adjustments s ! fi ! i))
             \<lparr>panX := 0, panY := 0, scale := 1\<rparr>"]) simp_all
  qed
qed

lemma paintedLayers_other:
  assumes "composed l s" "fire ev s = Inr s'"
    and "fj < length OUTPUT_FORMATS" "affected_format s ev \<noteq> Some fj"
  shows "paintedLayers s' fj fmt (photoCount l) = paintedLayers s fj fmt (photoCount l)"
proof (rule paintedLayers_cong)
  from fire_changes [OF assms(2)] obtain hp cs dg where
    s': "s' = s\<lparr>heap := hp, canvasEls := cs, drag := dg\<rparr>" by blast
  show "focalPoints s' = focalPoints s" "targetFocalY s' = targetFocalY s"
    "imageEls s' = imageEls s" "adjustments s' = adjustments s"
    by (simp_all add: s')
  from fire_other_format [OF assms] have "adjustmentRow s' fj = adjustmentRow s fj" by simp
  then show "\<forall>r \<in> set (adjustments s ! fj). heap s' r = heap s r"
    by (simp add: adjustmentRow_def \<open>adjustments s' = adjustments s\<close>)
  show "photoCount l \<le> length (adjustments s ! fj)"
    using composed_shape(5) [OF assms(1,3)] by simp
qed

lemma fire_painted:
  assumes "composed l s" "painted l s" "fire ev s = Inr s'"
  shows "painted l s'"
  unfolding painted_def
proof (intro allI impI)
  fix fj assume fj: "fj < length OUTPUT_FORMATS"
  note sh = composed_shape [OF assms(1) fj]
  from assms(2) fj have old: "layers (canvasEls s ! fj)
      = paintedLayers s fj (OUTPUT_FORMATS ! fj) (photoCount l)"
    by (simp add: painted_def)
  show "layers (canvasEls s' ! fj) = paintedLayers s' fj (OUTPUT_FORMATS ! fj) (photoCount l)"
  proof (cases "affected_format s ev = Some fj")
    case True
    from fire_paints [OF assms(1,3)] show ?thesis
    proof
      assume same: "heap s' = heap s \<and> canvasEls s' = canvasEls s"
      from fire_changes [OF assms(3)] obtain hp cs dg where
        s': "s' = s\<lparr>heap := hp, canvasEls := cs, drag := dg\<rparr>" by blast
      have "paintedLayers s' fj (OUTPUT_FORMATS ! fj) (photoCount l)
          = paintedLayers s fj (OUTPUT_FORMATS ! fj) (photoCount l)"
        by (rule paintedLayers_cong) (use same sh in \<open>simp_all add: s'\<close>)
      with same old show ?thesis by simp
    next
      assume "\<exists>fi i a. affected_format s ev = Some fi
             \<and> fi < length OUTPUT_FORMATS \<and> i < photoCount l
             \<and> heap s' = (heap s)(adjustments s ! fi ! i := a)
             \<and> canvasEls s' = list_update (canvasEls s) fi
                  ((canvasEls s ! fi)
                     \<lparr>layers := paintedLayers s' fi (OUTPUT_FORMATS ! fi) (photoCount l)\<rparr>)"
      with True sh(1) show ?thesis by auto
    qed
  next
    case False
    from fire_other_format [OF assms(1,3) fj False]
    have "canvasEls s' ! fj = canvasEls s ! fj" by simp
    with old paintedLayers_other [OF assms(1,3) fj False] show ?thesis by simp
  qed
qed

lemma run_painted:
  assumes "composed l s" "painted l s" "run evs s = Inr s'"
  shows "painted l s'"
  using assms
proof (induction evs arbitrary: s)
  case Nil
  then show ?case by simp
next
  case (Cons ev evs)
  from Cons.prems(3) obtain s1 where f: "fire ev s = Inr s1" and r: "run evs s1 = Inr s'"
    by (cases "fire ev s") simp_all
  from fire_composed [OF Cons.prems(1) f] fire_painted [OF Cons.prems(1,2) f] r
  show ?case by (rule Cons.IH)
qed

lemma compose_painted:
  assumes "selectedLayout s = Some l" "compose e s = Inr s0"
  shows "painted l s0"
  unfolding painted_def using compose_layers [OF assms] by simp

lemma render_own_row:
  assumes "composed l s" "painted l s" "fj < length OUTPUT_FORMATS"
    and "\<forall>r \<in> set (adjustments s ! fj). hp r = heap s r"
  shows "renderForFormat fj (OUTPUT_FORMATS ! fj) (s\<lparr>heap := hp\<rparr>) = Inr (s\<lparr>heap := hp\<rparr>)"
proof -
  note sh = composed_shape [OF assms(1,3)]
  have "paintedLayers (s\<lparr>heap := hp\<rparr>) fj (OUTPUT_FORMATS ! fj) (photoCount l)
      = paintedLayers s fj (OUTPUT_FORMATS ! fj) (photoCount l)"
    by (rule paintedLayers_cong) (use assms(4) sh in simp_all)
  also have "\<dots> = layers (canvasEls s ! fj)"
    using assms(2,3) by (simp add: painted_def)
  finally have "(canvasEls s ! fj)
        \<lparr>layers := paintedLayers (s\<lparr>heap := hp\<rparr>) fj (OUTPUT_FORMATS ! fj) (photoCount l)\<rparr>
      = canvasEls s ! fj"
    by simp
  then show ?thesis
    unfolding renderForFormat_heap_composed [OF assms(1,3)] by simp
qed

text \<open>
  Claim C2. After \<open>compose\<close> and any sequence of events on the preview, an event that
  writes an adjustment of one format (a drag move, a zoom slider input or a reset click)
  leaves the adjustments of every other format and the canvas of every other format as
  they were. The adjustment objects that \<open>compose\<close> creates are pairwise different
  objects, one for each format and panel, and the events never replace them. Before and
  after the event every canvas shows its format painted from that format's own row of
  adjustments; and rendering another format again after the event, whatever the
  adjustment objects outside that format's row hold, paints what its canvas already
  shows and changes nothing else.
\<close>

theorem C2_formats_independent:
  assumes "selectedLayout s = Some l" "compose e s = Inr s0"
    and "run evs s0 = Inr s1" "fire ev s1 = Inr s2"
    and "fj < length OUTPUT_FORMATS" "affected_format s1 ev \<noteq> Some fj"
  shows "distinct (concat (adjustments s0)) \<and> adjustments s1 = adjustments s0
       \<and> adjustments s2 = adjustments s1
       \<and> adjustmentRow s2 fj = adjustmentRow s1 fj
       \<and> canvasEls s2 ! fj = canvasEls s1 ! fj
       \<and> painted l s1 \<and> painted l s2
       \<and> (\<forall>hp. (\<forall>r \<in> set (adjustments s2 ! fj). hp r = heap s2 r)
             \<longrightarrow> renderForFormat fj (OUTPUT_FORMATS ! fj) (s2\<lparr>heap := hp\<rparr>)
                   = Inr (s2\<lparr>heap := hp\<rparr>))"
proof -
  from compose_result [OF assms(1,2)] have c0: "composed l s0" by blast
  then have d: "distinct (concat (adjustments s0))" by (simp add: composed_def)
  from run_composed [OF c0 assms(3)] have c1: "composed l s1" .
  from fire_composed [OF c1 assms(4)] have c2: "composed l s2" .
  from run_changes [OF assms(3)] have a: "adjustments s1 = adjustments s0" by auto
  from run_painted [OF c0 compose_painted [OF assms(1,2)] assms(3)] have p1: "painted l s1" .
  from fire_painted [OF c1 p1 assms(4)] have p2: "painted l s2" .
  have own: "renderForFormat fj (OUTPUT_FORMATS ! fj) (s2\<lparr>heap := hp\<rparr>) = Inr (s2\<lparr>heap := hp\<rparr>)"
    if "\<forall>r \<in> set (adjustments s2 ! fj). hp r = heap s2 r" for hp
    by (rule render_own_row [OF c2 p2 assms(5) that])
  from fire_other_format [OF c1 assms(4,5,6)] d a p1 p2 own show ?thesis by simp
qed


theorem C2_formats_independent_witness:
  "\<exists>s0 s1 s2. selectedLayout example_state = Some (LAYOUTS ! 0)
     \<and> compose example_env example_state = Inr s0
     \<and> run [SliderInput 1 1 1.5] s0 = Inr s1
     \<and> fire (SliderInput 0 0 2) s1 = Inr s2
     \<and> (1::nat) < length OUTPUT_FORMATS
     \<and> affected_format s1 (SliderInput 0 0 2) \<noteq> Some 1
     \<and> heap s1 (adjustments s1 ! 0 ! 0) = \<lparr>panX = 0, panY = 0, scale = 1\<rparr>
     \<and> heap s2 (adjustments s2 ! 0 ! 0) = \<lparr>panX = 0, panY = 0, scale = 2\<rparr>
     \<and> heap s2 (adjustments s2 ! 1 ! 1) = \<lparr>panX = 0, panY = 0, scale = 1.5\<rparr>
     \<and> distinct (concat (adjustments s0)) \<and> adjustments s1 = adjustments s0
     \<and> adjustments s2 = adjustments s1
     \<and> adjustmentRow s2 1 = adjustmentRow s1 1
     \<and> canvasEls s2 ! 1 = canvasEls s1 ! 1
     \<and> painted (LAYOUTS ! 0) s1 \<and> painted (LAYOUTS ! 0) s2
     \<and> renderForFormat 1 (OUTPUT_FORMATS ! 1) s2 = Inr s2"
proof -
  let ?l = "LAYOUTS ! 0"
  from example_composes obtain s0 where c: "compose example_env example_state = Inr s0" ..
  from compose_result [OF example_layout(1) c] have c0: "composed ?l s0" by blast
  have f1: "(1::nat) < length OUTPUT_FORMATS" and f0: "(0::nat) < length OUTPUT_FORMATS"
    by (simp_all add: formats_length)
  have p1: "(1::nat) < photoCount ?l" and p0: "(0::nat) < photoCount ?l"
    by (simp_all add: example_layout(2))
  define r00 where "r00 = adjustments s0 ! 0 ! 0"
  define r11 where "r11 = adjustments s0 ! Suc 0 ! Suc 0"
  note sh0 = composed_shape [OF c0 f0] and sh1 = composed_shape [OF c0 f1]
  from c0 have dist: "distinct (concat (adjustments s0))" by (simp add: composed_def)
  have m00: "r00 \<in> set (adjustments s0 ! 0)" and m11: "r11 \<in> set (adjustments s0 ! 1)"
    unfolding r00_def r11_def using sh0(5) sh1(5) p0 p1 by simp_all
  from distinct_concat_rows [OF dist sh0(4) sh1(4)] m00 m11 have ne: "r00 \<noteq> r11" by auto
  from fire_SliderInput_composed [OF c0 f1 p1, of "1.5"] obtain s1 where
    s1: "fire (SliderInput 1 1 1.5) s0 = Inr s1"
    and h1: "heap s1 = (heap s0)(r11 := (heap s0 r11)\<lparr>scale := 1.5, panX := 0, panY := 0\<rparr>)"
    by (simp add: r11_def)
  then have r: "run [SliderInput 1 1 1.5] s0 = Inr s1" by simp
  from run_composed [OF c0 r] have c1: "composed ?l s1" .
  from run_changes [OF r] have a1: "adjustments s1 = adjustments s0" by auto
  from fire_SliderInput_composed [OF c1 f0 p0, of 2] obtain s2 where
    s2: "fire (SliderInput 0 0 2) s1 = Inr s2"
    and h2: "heap s2 = (heap s1)(r00 := (heap s1 r00)\<lparr>scale := 2, panX := 0, panY := 0\<rparr>)"
    by (simp add: r00_def a1)
  from fire_changes [OF s2] have a2: "adjustments s2 = adjustments s1" by auto
  have d00: "heap s0 r00 = \<lparr>panX = 0, panY = 0, scale = 1\<rparr>"
    unfolding r00_def by (rule compose_defaults(1) [OF example_layout(1) c f0 p0])
  have d11: "heap s0 r11 = \<lparr>panX = 0, panY = 0, scale = 1\<rparr>"
    using compose_defaults(1) [OF example_layout(1) c f1 p1] by (simp add: r11_def)
  have v1: "heap s1 (adjustments s1 ! 0 ! 0) = \<lparr>panX = 0, panY = 0, scale = 1\<rparr>"
    using ne d00 by (simp add: a1 h1 r00_def [symmetric])
  have v2: "heap s2 (adjustments s2 ! 0 ! 0) = \<lparr>panX = 0, panY = 0, scale = 2\<rparr>"
    using ne d00 by (simp add: a2 a1 h2 h1 r00_def [symmetric])
  have v3: "heap s2 (adjustments s2 ! 1 ! 1) = \<lparr>panX = 0, panY = 0, scale = 1.5\<rparr>"
    using ne d11 by (simp add: a2 a1 h2 h1 r11_def [symmetric])
  have af: "affected_format s1 (SliderInput 0 0 2) \<noteq> Some 1" by simp
  note c2 = C2_formats_independent [OF example_layout(1) c r s2 f1 af]
  from c2 have "renderForFormat 1 (OUTPUT_FORMATS ! 1) (s2\<lparr>heap := heap s2\<rparr>)
                  = Inr (s2\<lparr>heap := heap s2\<rparr>)"
    by blast
  then have again: "renderForFormat 1 (OUTPUT_FORMATS ! 1) s2 = Inr s2" by simp
  from c2 c r s2 f1 af example_layout(1) v1 v2 v3 again
  show ?thesis by blast
qed

section \<open>Shared target Y\<close>

lemma targetFocalY_two:
  assumes "photoCount l = 2"
  shows "targetFocalY (compose_begin l s)
     = max 0.25 (min (fl 0.65)
         (fl (fl (fl (0 + (case focalPoints s 0 of Some f \<Rightarrow> focal_y f | None \<Rightarrow> 0.5))
                    + (case focalPoints s 1 of Some f \<Rightarrow> focal_y f | None \<Rightarrow> 0.5)) / 2)))"
proof -
  have two: "[0..<2] = [0, Suc 0]" by (simp add: numeral_2_eq_2 upt_conv_Cons)
  show ?thesis by (simp add: compose_begin_fields assms two)
qed

lemma targetFocalY_three:
  assumes "photoCount l = 3"
  shows "targetFocalY (compose_begin l s)
     = max 0.25 (min (fl 0.65)
         (fl (fl (fl (fl (0 + (case focalPoints s 0 of Some f \<Rightarrow> focal_y f | None \<Rightarrow> 0.5))
                        + (case focalPoints s 1 of Some f \<Rightarrow> focal_y f | None \<Rightarrow> 0.5))
                    + (case focalPoints s 2 of Some f \<Rightarrow> focal_y f | None \<Rightarrow> 0.5)) / 3)))"
proof -
  have three: "[0..<3] = [0, Suc 0, 2]" by (simp add: numeral_3_eq_3 upt_conv_Cons)
  show ?thesis by (simp add: compose_begin_fields assms three)
qed

lemma targetFocalY_faces3:
  assumes "fl (0 + y0) = a0" "fl (a0 + y1) = a1" "fl (a1 + y2) = a2" "fl (a2 / 3) = m"
    and "max 0.25 (min (fl 0.65) m) = T"
  shows "targetFocalY (compose_begin (LAYOUTS ! 1) (faces (LAYOUTS ! 1) [y0, y1, y2])) = T"
proof -
  have n: "photoCount (LAYOUTS ! 1) = 3" by (simp add: LAYOUTS_def)
  have y: "(case focalPoints (faces (LAYOUTS ! 1) [y0, y1, y2]) 0 of
              Some f \<Rightarrow> focal_y f | None \<Rightarrow> 0.5) = y0"
    "(case focalPoints (faces (LAYOUTS ! 1) [y0, y1, y2]) 1 of
              Some f \<Rightarrow> focal_y f | None \<Rightarrow> 0.5) = y1"
    "(case focalPoints (faces (LAYOUTS ! 1) [y0, y1, y2]) 2 of
              Some f \<Rightarrow> focal_y f | None \<Rightarrow> 0.5) = y2"
    by (simp_all add: faces_def)
  show ?thesis unfolding targetFocalY_three [OF n] y assms ..
qed

lemma binary64_values:
  "fl (1 / 10) = 3602879701896397 / 2 ^ 55"
  "fl (6 / 10) = 5404319552844595 / 2 ^ 53"
  "fl 0.65 = 5854679515581645 / 2 ^ 53"
  "fl (1 / 2) = 1 / 2"
  by code_simp+

text \<open>
  Claim C3, as stated, fails: with three panels the sum of the same three y components
  taken in another order rounds differently. The focal points 0.1, 0.5, 0.6 (the binary64
  numbers the script holds for these literals) give the target Y 0.39999999999999997, and
  in the order 0.5, 0.6, 0.1 they give 0.4000000000000001.
\<close>

theorem C3_counterexample:
  "targetFocalY (compose_begin (LAYOUTS ! 1)
      (faces (LAYOUTS ! 1) [fl (1 / 10), 1 / 2, fl (6 / 10)])) = 7205759403792793 / 2 ^ 54
   \<and> targetFocalY (compose_begin (LAYOUTS ! 1)
      (faces (LAYOUTS ! 1) [1 / 2, fl (6 / 10), fl (1 / 10)])) = 7205759403792795 / 2 ^ 54
   \<and> targetFocalY (compose_begin (LAYOUTS ! 1)
        (faces (LAYOUTS ! 1) [fl (1 / 10), 1 / 2, fl (6 / 10)]))
     \<noteq> targetFocalY (compose_begin (LAYOUTS ! 1)
        (faces (LAYOUTS ! 1) [1 / 2, fl (6 / 10), fl (1 / 10)]))"
proof -
  note v = binary64_values
  have a0: "fl (0 + fl (1 / 10)) = 3602879701896397 / 2 ^ 55"
    unfolding v by code_simp
  have a1: "fl (3602879701896397 / 2 ^ 55 + 1 / 2) = 5404319552844595 / 2 ^ 53"
    by code_simp
  have a2: "fl (5404319552844595 / 2 ^ 53 + fl (6 / 10)) = 5404319552844595 / 2 ^ 52"
    unfolding v by code_simp
  have a3: "fl (5404319552844595 / 2 ^ 52 / 3) = 7205759403792793 / 2 ^ 54"
    by code_simp
  have a4: "max 0.25 (min (fl 0.65) (7205759403792793 / 2 ^ 54)) = 7205759403792793 / 2 ^ 54"
    unfolding v by code_simp
  have b0: "fl (0 + 1 / 2) = 1 / 2"
    by code_simp
  have b1: "fl (1 / 2 + fl (6 / 10)) = 2476979795053773 / 2 ^ 51"
    unfolding v by code_simp
  have b2: "fl (2476979795053773 / 2 ^ 51 + fl (1 / 10)) = 1351079888211149 / 2 ^ 50"
    unfolding v by code_simp
  have b3: "fl (1351079888211149 / 2 ^ 50 / 3) = 7205759403792795 / 2 ^ 54"
    by code_simp
  have b4: "max 0.25 (min (fl 0.65) (7205759403792795 / 2 ^ 54)) = 7205759403792795 / 2 ^ 54"
    unfolding v by code_simp
  note A = targetFocalY_faces3 [OF a0 a1 a2 a3 a4]
  note B = targetFocalY_faces3 [OF b0 b1 b2 b3 b4]
  show ?thesis unfolding A B by simp
qed


lemma target_range:
  "0.25 \<le> max 0.25 (min (fl 0.65) a) \<and> max 0.25 (min (fl 0.65) a) \<le> fl 0.65"
proof -
  have "(0.25::real) \<le> fl 0.65" unfolding binary64_values(3) by simp
  then show ?thesis by (auto simp: max_def min_def)
qed

lemma two_panels_swap:
  assumes "photoCount l = 2"
    and "\<forall>i<2. fl (case focalPoints s i of Some f \<Rightarrow> focal_y f | None \<Rightarrow> 0.5)
               = (case focalPoints s i of Some f \<Rightarrow> focal_y f | None \<Rightarrow> 0.5)"
    and "bij_betw p {..<2} {..<2}"
    and "\<forall>i<2. focalPoints s' i = focalPoints s (p i)"
  shows "targetFocalY (compose_begin l s') = targetFocalY (compose_begin l s)"
proof -
  let ?y = "\<lambda>st i. case focalPoints st i of Some f \<Rightarrow> focal_y f | None \<Rightarrow> (0.5::real)"
  have d0: "fl (?y s 0) = ?y s 0" and d1: "fl (?y s 1) = ?y s 1"
    using assms(2) by simp_all
  have f0: "focalPoints s' 0 = focalPoints s (p 0)" and f1: "focalPoints s' 1 = focalPoints s (p 1)"
    using assms(4) by simp_all
  from assms(3) have img: "p ` {..<2} = {..<2}" and inj: "inj_on p {..<2}"
    by (simp_all add: bij_betw_def)
  from img have p0: "p 0 < 2" and p1: "p 1 < 2" by auto
  have ne: "p 0 \<noteq> p 1" using inj_onD [OF inj, of 0 1] by auto
  from p0 p1 ne consider "p 0 = 0" "p 1 = 1" | "p 0 = 1" "p 1 = 0" by linarith
  then show ?thesis
  proof cases
    case 1
    then show ?thesis
      unfolding targetFocalY_two [OF assms(1)] f0 f1 by simp
  next
    case 2
    have "fl (fl (0 + ?y s 1) + ?y s 0) = fl (fl (0 + ?y s 0) + ?y s 1)"
      using d0 d1 by (simp add: add.commute)
    then show ?thesis
      unfolding targetFocalY_two [OF assms(1)] f0 f1 2 by simp
  qed
qed

lemma faces_composes:
  assumes "length ys = photoCount l"
  shows "\<exists>s0. compose example_env (faces l ys) = Inr s0"
proof (rule compose_succeeds)
  show "selectedLayout (faces l ys) = Some l" by (simp add: faces_def)
  show "\<forall>i<photoCount l. \<exists>im img. images (faces l ys) i = Some im
          \<and> decodeImage example_env (dataURL im) = Some img"
    using assms by (simp add: faces_def example_env_def)
qed

lemma targetFocalY_faces2:
  assumes "fl (0 + y0) = a0" "fl (a0 + y1) = a1" "fl (a1 / 2) = m"
    and "max 0.25 (min (fl 0.65) m) = T"
  shows "targetFocalY (compose_begin (LAYOUTS ! 0) (faces (LAYOUTS ! 0) [y0, y1])) = T"
proof -
  have y: "(case focalPoints (faces (LAYOUTS ! 0) [y0, y1]) 0 of
              Some f \<Rightarrow> focal_y f | None \<Rightarrow> 0.5) = y0"
    "(case focalPoints (faces (LAYOUTS ! 0) [y0, y1]) 1 of
              Some f \<Rightarrow> focal_y f | None \<Rightarrow> 0.5) = y1"
    by (simp_all add: faces_def)
  show ?thesis unfolding targetFocalY_two [OF example_layout(2)] y assms ..
qed

text \<open>
  Claim C3, amended. For a layout with at least one panel, the target Y that \<open>compose\<close>
  stores is the mean of the y components of the focal points over the panels of the
  layout (0.5 for a slot without focal point) as the script computes it in binary64: the
  components are added from left to right, starting from 0, the sum is divided by the
  panel count, each operation rounded; the result is clamped to the interval from 0.25
  to 0.65 (the binary64 number nearest to 0.65). It lies in that interval and it is the
  value the state holds when \<open>compose\<close> has finished. For a layout of two panels whose
  focal y components are binary64 numbers it is the same for every permutation of the
  focal points over the slots; for three panels a permutation can change it by rounding.
\<close>

theorem C3_shared_target_y:
  assumes "0 < photoCount l"
  shows "(let T = targetFocalY (compose_begin l s);
              ys = map (\<lambda>i. case focalPoints s i of Some f \<Rightarrow> focal_y f | None \<Rightarrow> 0.5)
                     [0..<photoCount l]
          in length ys = photoCount l
           \<and> T = max 0.25 (min (fl 0.65)
                    (fl (foldl (\<lambda>a v. fl (a + v)) 0 ys / real (length ys))))
           \<and> 0.25 \<le> T \<and> T \<le> fl 0.65
           \<and> (\<forall>s0. selectedLayout s = Some l \<and> compose e s = Inr s0 \<longrightarrow> targetFocalY s0 = T)
           \<and> (\<forall>s' p. photoCount l = 2 \<and> (\<forall>y \<in> set ys. fl y = y)
                   \<and> bij_betw p {..<photoCount l} {..<photoCount l}
                   \<and> (\<forall>i<photoCount l. focalPoints s' i = focalPoints s (p i))
                 \<longrightarrow> targetFocalY (compose_begin l s') = T))"
proof -
  let ?n = "photoCount l"
  let ?y = "\<lambda>st i. case focalPoints st i of Some f \<Rightarrow> focal_y f | None \<Rightarrow> (0.5::real)"
  let ?T = "targetFocalY (compose_begin l s)"
  have mean: "?T = max 0.25 (min (fl 0.65)
                (fl (foldl (\<lambda>a v. fl (a + v)) 0 (map (?y s) [0..<?n])
                     / real (length (map (?y s) [0..<?n])))))"
    by (simp add: compose_begin_fields)
  have rng: "0.25 \<le> ?T \<and> ?T \<le> fl 0.65"
    unfolding compose_begin_fields by (rule target_range)
  have fin: "targetFocalY s0 = ?T" if "selectedLayout s = Some l" "compose e s = Inr s0" for s0
    by (rule compose_defaults(3) [OF that])
  have perm: "targetFocalY (compose_begin l s') = ?T"
    if n: "?n = 2" and d: "\<forall>y \<in> set (map (?y s) [0..<?n]). fl y = y"
      and b: "bij_betw p {..<?n} {..<?n}" and f: "\<forall>i<?n. focalPoints s' i = focalPoints s (p i)"
    for s' p
  proof (rule two_panels_swap [OF n])
    show "\<forall>i<2. fl (?y s i) = ?y s i" using d unfolding n by simp
    show "bij_betw p {..<2} {..<2}" using b unfolding n .
    show "\<forall>i<2. focalPoints s' i = focalPoints s (p i)" using f unfolding n .
  qed
  show ?thesis
    unfolding Let_def
  proof (intro conjI allI impI)
    show "length (map (?y s) [0..<?n]) = ?n" by simp
    show "?T = max 0.25 (min (fl 0.65)
                (fl (foldl (\<lambda>a v. fl (a + v)) 0 (map (?y s) [0..<?n])
                     / real (length (map (?y s) [0..<?n])))))"
      by (rule mean)
    show "0.25 \<le> ?T" using rng ..
    show "?T \<le> fl 0.65" using rng ..
  next
    fix s0 :: state assume "selectedLayout s = Some l \<and> compose e s = Inr s0"
    then show "targetFocalY s0 = ?T" using fin by blast
  next
    fix s' :: state and p :: "nat \<Rightarrow> nat"
    assume "?n = 2 \<and> (\<forall>y \<in> set (map (?y s) [0..<?n]). fl y = y)
              \<and> bij_betw p {..<?n} {..<?n}
              \<and> (\<forall>i<?n. focalPoints s' i = focalPoints s (p i))"
    then show "targetFocalY (compose_begin l s') = ?T" using perm by blast
  qed
qed


theorem C3_shared_target_y_witness:
  "0 < photoCount (LAYOUTS ! 0) \<and> photoCount (LAYOUTS ! 0) = 2
   \<and> fl (fl (1 / 5)) = fl (1 / 5) \<and> fl (fl (4 / 5)) = fl (4 / 5)
   \<and> bij_betw (\<lambda>i. 1 - i) {..<photoCount (LAYOUTS ! 0)} {..<photoCount (LAYOUTS ! 0)}
   \<and> targetFocalY (compose_begin (LAYOUTS ! 0)
        (faces (LAYOUTS ! 0) [fl (1 / 5), fl (4 / 5)])) = 1 / 2
   \<and> targetFocalY (compose_begin (LAYOUTS ! 0)
        (faces (LAYOUTS ! 0) [fl (4 / 5), fl (1 / 5)])) = 1 / 2
   \<and> (\<exists>s0. compose example_env (faces (LAYOUTS ! 0) [fl (1 / 5), fl (4 / 5)]) = Inr s0
         \<and> targetFocalY s0 = 1 / 2)"
proof -
  let ?l = "LAYOUTS ! 0"
  let ?A = "faces ?l [fl (1 / 5), fl (4 / 5)]"
  let ?B = "faces ?l [fl (4 / 5), fl (1 / 5)]"
  have n: "0 < photoCount ?l" and n2: "photoCount ?l = 2" by (simp_all add: example_layout(2))
  have v: "fl (1 / 5) = 3602879701896397 / 2 ^ 54" "fl (4 / 5) = 3602879701896397 / 2 ^ 52"
    by code_simp+
  have d: "fl (fl (1 / 5)) = fl (1 / 5)" "fl (fl (4 / 5)) = fl (4 / 5)"
    unfolding v by code_simp+
  have b: "bij_betw (\<lambda>i. 1 - i) {..<photoCount ?l} {..<photoCount ?l}"
    unfolding example_layout(2)
    by (rule bij_betw_byWitness [where f' = "\<lambda>i. 1 - i"]) auto
  have a0: "fl (0 + fl (1 / 5)) = 3602879701896397 / 2 ^ 54"
    unfolding v by code_simp
  have a1: "fl (3602879701896397 / 2 ^ 54 + fl (4 / 5)) = 1"
    unfolding v by code_simp
  have a2: "fl (1 / 2) = 1 / 2"
    by code_simp
  have a3: "max 0.25 (min (fl 0.65) (1 / 2)) = 1 / 2"
    unfolding binary64_values by code_simp
  note A = targetFocalY_faces2 [OF a0 a1 a2 a3]
  note c3 = C3_shared_target_y [OF n, of ?A example_env, unfolded Let_def]
  have dbl: "\<forall>y \<in> set (map (\<lambda>i. case focalPoints ?A i of Some f \<Rightarrow> focal_y f | None \<Rightarrow> 0.5)
                         [0..<photoCount ?l]). fl y = y"
    using d by (auto simp: example_layout(2) faces_def less_Suc_eq numeral_2_eq_2)
  have sw: "\<forall>i<photoCount ?l. focalPoints ?B i = focalPoints ?A (1 - i)"
    by (simp add: example_layout(2) faces_def less_Suc_eq numeral_2_eq_2)
  from c3 n2 dbl b sw have B: "targetFocalY (compose_begin ?l ?B) = targetFocalY (compose_begin ?l ?A)"
    by blast
  have lay: "selectedLayout ?A = Some ?l" by (simp add: faces_def)
  from faces_composes [of "[fl (1 / 5), fl (4 / 5)]" ?l] obtain s0 where
    s0: "compose example_env ?A = Inr s0" by (auto simp: example_layout(2))
  from c3 lay s0 have "targetFocalY s0 = targetFocalY (compose_begin ?l ?A)" by blast
  with s0 A have fin: "\<exists>s0. compose example_env ?A = Inr s0 \<and> targetFocalY s0 = 1 / 2"
    by auto
  from n n2 d b A B fin show ?thesis by simp
qed

section \<open>Quality tag\<close>

lemma all_loaded:
  assumes "\<forall>i<n. images s i \<noteq> None"
  shows "length (filter (\<lambda>i. images s i \<noteq> None) [0..<n]) = n"
proof -
  have "filter (\<lambda>i. images s i \<noteq> None) [0..<n] = [0..<n]"
    by (rule filter_True) (use assms in simp)
  then show ?thesis by simp
qed

lemma loadImageFile_fields:
  "images (loadImageFile e url index s) =
     (images s)(index \<mapsto> \<lparr>dataURL = url, qualityWarning =
        (if 0 < dims_width (getImageSize e url)
              \<and> max (dims_width (getImageSize e url)) (dims_height (getImageSize e url)) < 1500
         then Some ''low resolution''
         else if score_less (measureSharpness e url) 100 then Some ''may look soft''
         else None)\<rparr>)"
  "focalPoints (loadImageFile e url index s) = (focalPoints s)(index \<mapsto> detectFace e url)"
  "selectedLayout (loadImageFile e url index s) = selectedLayout s"
  by (simp_all add: loadImageFile_def Let_def resetPreview_def updateComposeButton_def
        split: option.splits)

lemma loadImageFile_button:
  assumes "selectedLayout s = Some l"
  shows "btnComposeDisabled (loadImageFile e url index s)
     \<longleftrightarrow> length (filter (\<lambda>i. images (loadImageFile e url index s) i \<noteq> None) [0..<photoCount l])
           < photoCount l"
  using assms
  by (simp add: loadImageFile_def Let_def resetPreview_def updateComposeButton_def)

lemma loadImageFile_composes:
  assumes "selectedLayout s = Some l" "index < photoCount l" "decodeImage e url \<noteq> None"
    and "\<forall>i<photoCount l. i \<noteq> index
           \<longrightarrow> (\<exists>im. images s i = Some im \<and> decodeImage e (dataURL im) \<noteq> None)"
  shows "\<exists>s0. compose e (loadImageFile e url index s) = Inr s0 \<and> composited s0
           \<and> images s0 = images (loadImageFile e url index s)"
proof -
  let ?s' = "loadImageFile e url index s"
  have lay: "selectedLayout ?s' = Some l" by (simp add: loadImageFile_fields assms(1))
  have "\<exists>im img. images ?s' i = Some im \<and> decodeImage e (dataURL im) = Some img"
    if "i < photoCount l" for i
  proof (cases "i = index")
    case True
    with assms(3) show ?thesis by (auto simp: loadImageFile_fields)
  next
    case False
    with assms(4) that obtain im where "images s i = Some im" "decodeImage e (dataURL im) \<noteq> None"
      by blast
    with False show ?thesis by (auto simp: loadImageFile_fields)
  qed
  then have "\<forall>i<photoCount l. \<exists>im img. images ?s' i = Some im
               \<and> decodeImage e (dataURL im) = Some img"
    by blast
  from compose_succeeds [OF lay this] obtain s0 where c: "compose e ?s' = Inr s0" ..
  from compose_result [OF lay c] obtain els cs where
    s0: "s0 = (compose_begin l ?s')
                  \<lparr>imageEls := els, canvasEls := cs,
                   adjControls := map (map Some) (adjustments (compose_begin l ?s')),
                   composited := True, btnComposeDisabled := False\<rparr>"
    by blast
  have "composited s0" and "images s0 = images ?s'"
    by (simp_all add: s0 compose_begin_fields)
  with c show ?thesis by blast
qed


theorem C5_counterexample:
  "getImageSize
     \<lparr>hasFaceDetector = False,
      decodeImage = (\<lambda>url. Some \<lparr>img_src = url, img_width = 100, img_height = 0\<rparr>),
      imageData = (\<lambda>img. replicate (4 * SIZE * SIZE) 0),
      detectFaces = (\<lambda>img. None)\<rparr> ''svg''
     = \<lparr>dims_width = 100, dims_height = 0\<rparr>
   \<and> images (loadImageFile
       \<lparr>hasFaceDetector = False,
        decodeImage = (\<lambda>url. Some \<lparr>img_src = url, img_width = 100, img_height = 0\<rparr>),
        imageData = (\<lambda>img. replicate (4 * SIZE * SIZE) 0),
        detectFaces = (\<lambda>img. None)\<rparr> ''svg'' 0 initial_state) 0
     = Some \<lparr>dataURL = ''svg'', qualityWarning = Some ''low resolution''\<rparr>
   \<and> \<not> (0 < (100::nat) \<and> 0 < (0::nat) \<and> max (100::nat) 0 < 1500)"
  by (simp add: loadImageFile_fields getImageSize_def)

text \<open>
  Claim C5, amended. An uploaded photo is stored in its slot with the tag
  \<open>low resolution\<close> when it is too small, else \<open>may look soft\<close> when it is blurry, else
  with no tag, where a photo is too small exactly when its declared width is greater
  than 0 and the larger of its width and height is below 1500 (the height is not tested
  for being greater than 0), and blurry exactly when its sharpness score is below 100. A
  photo that does not decode is not too small; for a photo whose width and height are
  both greater than 0, too small means that the larger of them is below 1500. The tag
  never blocks composition: once every slot of the layout holds a photo, the compose
  button is enabled, whatever the tags are; and when the photos of all slots decode,
  \<open>compose\<close> completes with the preview composited and the photos, tags included, as they
  were stored.
\<close>

theorem C5_quality_tag:
  "(let dims = getImageSize e url;
        sharpness = measureSharpness e url;
        tooSmall = (0 < dims_width dims \<and> max (dims_width dims) (dims_height dims) < 1500);
        isBlurry = score_less sharpness 100;
        s' = loadImageFile e url index s
    in images s' index
         = Some \<lparr>dataURL = url,
                 qualityWarning = (if tooSmall then Some ''low resolution''
                                   else if isBlurry then Some ''may look soft''
                                   else None)\<rparr>
     \<and> (decodeImage e url = None \<longrightarrow> \<not> tooSmall)
     \<and> (0 < dims_width dims \<and> 0 < dims_height dims
          \<longrightarrow> (tooSmall \<longleftrightarrow> max (dims_width dims) (dims_height dims) < 1500))
     \<and> (isBlurry \<longleftrightarrow> (\<exists>v. sharpness = Finite v \<and> v < 100))
     \<and> (selectedLayout s = Some l \<and> index < photoCount l
           \<and> (\<forall>i<photoCount l. i \<noteq> index \<longrightarrow> images s i \<noteq> None)
          \<longrightarrow> \<not> btnComposeDisabled s')
     \<and> (selectedLayout s = Some l \<and> index < photoCount l \<and> decodeImage e url \<noteq> None
           \<and> (\<forall>i<photoCount l. i \<noteq> index
                 \<longrightarrow> (\<exists>im. images s i = Some im \<and> decodeImage e (dataURL im) \<noteq> None))
          \<longrightarrow> (\<exists>s0. compose e s' = Inr s0 \<and> composited s0 \<and> images s0 = images s')))"
proof -
  have tag: "images (loadImageFile e url index s) index
         = Some \<lparr>dataURL = url,
                 qualityWarning =
                   (if 0 < dims_width (getImageSize e url)
                         \<and> max (dims_width (getImageSize e url)) (dims_height (getImageSize e url))
                             < 1500
                    then Some ''low resolution''
                    else if score_less (measureSharpness e url) 100 then Some ''may look soft''
                    else None)\<rparr>"
    by (simp add: loadImageFile_fields)
  have fail: "\<not> (0 < dims_width (getImageSize e url)
                \<and> max (dims_width (getImageSize e url)) (dims_height (getImageSize e url)) < 1500)"
    if "decodeImage e url = None"
    using that by (simp add: getImageSize_def)
  have blur: "score_less (measureSharpness e url) 100
      \<longleftrightarrow> (\<exists>v. measureSharpness e url = Finite v \<and> v < 100)"
    by (cases "measureSharpness e url") simp_all
  have button: "\<not> btnComposeDisabled (loadImageFile e url index s)"
    if "selectedLayout s = Some l" "index < photoCount l"
      "\<forall>i<photoCount l. i \<noteq> index \<longrightarrow> images s i \<noteq> None"
  proof -
    have "\<forall>i<photoCount l. images (loadImageFile e url index s) i \<noteq> None"
      using that(3) by (simp add: loadImageFile_fields)
    from all_loaded [OF this] show ?thesis
      by (simp add: loadImageFile_button [OF that(1)])
  qed
  have comp: "\<exists>s0. compose e (loadImageFile e url index s) = Inr s0 \<and> composited s0
           \<and> images s0 = images (loadImageFile e url index s)"
    if "selectedLayout s = Some l" "index < photoCount l" "decodeImage e url \<noteq> None"
      "\<forall>i<photoCount l. i \<noteq> index
           \<longrightarrow> (\<exists>im. images s i = Some im \<and> decodeImage e (dataURL im) \<noteq> None)"
    by (rule loadImageFile_composes [OF that])
  from tag fail blur button comp show ?thesis
    unfolding Let_def by blast
qed

theorem C5_quality_tag_witness:
  "images (loadImageFile example_env ''thumb'' 1 example_state) 1
     = Some \<lparr>dataURL = ''thumb'', qualityWarning = Some ''low resolution''\<rparr>
   \<and> images (loadImageFile example_env ''broken'' 1 example_state) 1
     = Some \<lparr>dataURL = ''broken'', qualityWarning = None\<rparr>
   \<and> decodeImage example_env ''broken'' = None
   \<and> decodeImage example_env ''thumb'' \<noteq> None
   \<and> selectedLayout example_state = Some (LAYOUTS ! 0) \<and> 1 < photoCount (LAYOUTS ! 0)
   \<and> images example_state 0 \<noteq> None
   \<and> \<not> btnComposeDisabled (loadImageFile example_env ''thumb'' 1 example_state)
   \<and> \<not> btnComposeDisabled (loadImageFile example_env ''broken'' 1 example_state)
   \<and> (\<exists>s0. compose example_env (loadImageFile example_env ''thumb'' 1 example_state) = Inr s0
         \<and> composited s0
         \<and> images s0 1 = Some \<lparr>dataURL = ''thumb'', qualityWarning = Some ''low resolution''\<rparr>)"
proof -
  have others: "\<forall>i<photoCount (LAYOUTS ! 0). i \<noteq> 1 \<longrightarrow> images example_state i \<noteq> None"
    by (simp add: example_layout(2) example_state_def)
  have others': "\<forall>i<photoCount (LAYOUTS ! 0). i \<noteq> 1
      \<longrightarrow> (\<exists>im. images example_state i = Some im \<and> decodeImage example_env (dataURL im) \<noteq> None)"
    by (simp add: example_layout(2) example_state_def example_env_def)
  have one: "1 < photoCount (LAYOUTS ! 0)" by (simp add: example_layout(2))
  have dec: "decodeImage example_env ''broken'' = None" by (simp add: example_env_def)
  have dec': "decodeImage example_env ''thumb'' \<noteq> None" by (simp add: example_env_def)
  have size: "getImageSize example_env ''thumb'' = \<lparr>dims_width = 800, dims_height = 600\<rparr>"
    "getImageSize example_env ''broken'' = \<lparr>dims_width = 0, dims_height = 0\<rparr>"
    "measureSharpness example_env ''broken'' = Infinity"
    by (simp_all add: getImageSize_def measureSharpness_def example_env_def)
  note t = C5_quality_tag [of example_env "''thumb''" 1 example_state "LAYOUTS ! 0",
      unfolded Let_def]
  note b = C5_quality_tag [of example_env "''broken''" 1 example_state "LAYOUTS ! 0",
      unfolded Let_def]
  from t have tag: "images (loadImageFile example_env ''thumb'' 1 example_state) 1
     = Some \<lparr>dataURL = ''thumb'', qualityWarning = Some ''low resolution''\<rparr>"
    by (simp add: size)
  from t example_layout(1) one dec' others' obtain s0 where
    "compose example_env (loadImageFile example_env ''thumb'' 1 example_state) = Inr s0"
    "composited s0"
    "images s0 = images (loadImageFile example_env ''thumb'' 1 example_state)"
    by blast
  with tag have comp: "\<exists>s0. compose example_env (loadImageFile example_env ''thumb'' 1 example_state)
        = Inr s0 \<and> composited s0
      \<and> images s0 1 = Some \<lparr>dataURL = ''thumb'', qualityWarning = Some ''low resolution''\<rparr>"
    by auto
  from t b others one dec example_layout(1)
  have rest: "images (loadImageFile example_env ''broken'' 1 example_state) 1
       = Some \<lparr>dataURL = ''broken'', qualityWarning = None\<rparr>
     \<and> images example_state 0 \<noteq> None
     \<and> \<not> btnComposeDisabled (loadImageFile example_env ''thumb'' 1 example_state)
     \<and> \<not> btnComposeDisabled (loadImageFile example_env ''broken'' 1 example_state)"
    by (simp add: size)
  from tag rest dec dec' example_layout(1) one comp show ?thesis by blast
qed

section \<open>A photo that does not decode\<close>

lemma decode_failure_defaults:
  assumes "decodeImage e url = None"
  shows "getImageSize e url = \<lparr>dims_width = 0, dims_height = 0\<rparr>"
    and "measureSharpness e url = Infinity"
    and "detectFace e url = \<lparr>focal_x = 0.5, focal_y = 0.5, faceFound = False\<rparr>"
    and "images (loadImageFile e url index s) index
           = Some \<lparr>dataURL = url, qualityWarning = None\<rparr>"
    and "focalPoints (loadImageFile e url index s) index
           = Some \<lparr>focal_x = 0.5, focal_y = 0.5, faceFound = False\<rparr>"
proof -
  show 1: "getImageSize e url = \<lparr>dims_width = 0, dims_height = 0\<rparr>"
    using assms by (simp add: getImageSize_def)
  show 2: "measureSharpness e url = Infinity"
    using assms by (simp add: measureSharpness_def)
  show 3: "detectFace e url = \<lparr>focal_x = 0.5, focal_y = 0.5, faceFound = False\<rparr>"
    using assms by (simp add: detectFace_def)
  show "images (loadImageFile e url index s) index
           = Some \<lparr>dataURL = url, qualityWarning = None\<rparr>"
    by (simp add: loadImageFile_fields 1 2)
  show "focalPoints (loadImageFile e url index s) index
           = Some \<lparr>focal_x = 0.5, focal_y = 0.5, faceFound = False\<rparr>"
    by (simp add: loadImageFile_fields 3)
qed

lemma compose_never_settles:
  assumes "selectedLayout s = Some l" "\<forall>i<photoCount l. images s i \<noteq> None"
    and "i < photoCount l" "images s i = Some im" "decodeImage e (dataURL im) = None"
  shows "compose e s = Inl NeverSettles"
proof -
  let ?ps = "map (slotImage e s) [0..<photoCount l]"
  have "slotImage e s j \<noteq> Inl TypeError" if "j < photoCount l" for j
    using assms(2) that by (auto simp: slotImage_def split: option.splits)
  then have no: "Inl TypeError \<notin> set ?ps"
  proof -
    have "p \<noteq> Inl TypeError" if "p \<in> set ?ps" for p
    proof -
      from that obtain j where "j < photoCount l" "p = slotImage e s j" by auto
      with \<open>\<And>j. j < photoCount l \<Longrightarrow> slotImage e s j \<noteq> Inl TypeError\<close>
      show ?thesis by simp
    qed
    then show ?thesis by blast
  qed
  have "slotImage e s i = Inl NeverSettles"
    using assms(4,5) by (simp add: slotImage_def)
  with assms(3) have yes: "Inl NeverSettles \<in> set ?ps" by force
  from no yes have "loadImageEls e (photoCount l) s = Inl NeverSettles"
    by (simp add: loadImageEls_def Let_def)
  then have "loadImageEls e (photoCount l) (compose_begin l s) = Inl NeverSettles"
    by (simp add: loadImageEls_compose_begin)
  with assms(1) show ?thesis by (simp add: compose_def Let_def)
qed

text \<open>
  Claim C6. A data URL that does not decode is loaded into the second slot of the example
  session. Every analysis resolves to its default: the size is 0 by 0, the sharpness is
  \<open>Infinity\<close>, which is not below 100, the focal point is the centre with no face found,
  and the photo is stored without a tag; the compose button is enabled. But \<open>compose\<close>
  then never finishes: the promise it awaits for that image has no \<open>onerror\<close> handler
  and stays pending, so the slot is not rendered at all.
\<close>

theorem C6_undecodable_photo:
  "decodeImage example_env ''broken'' = None
   \<and> getImageSize example_env ''broken'' = \<lparr>dims_width = 0, dims_height = 0\<rparr>
   \<and> measureSharpness example_env ''broken'' = Infinity
   \<and> \<not> score_less (measureSharpness example_env ''broken'') 100
   \<and> detectFace example_env ''broken'' = \<lparr>focal_x = 0.5, focal_y = 0.5, faceFound = False\<rparr>
   \<and> images (loadImageFile example_env ''broken'' 1 example_state) 1
       = Some \<lparr>dataURL = ''broken'', qualityWarning = None\<rparr>
   \<and> focalPoints (loadImageFile example_env ''broken'' 1 example_state) 1
       = Some \<lparr>focal_x = 0.5, focal_y = 0.5, faceFound = False\<rparr>
   \<and> \<not> btnComposeDisabled (loadImageFile example_env ''broken'' 1 example_state)
   \<and> compose example_env (loadImageFile example_env ''broken'' 1 example_state)
       = Inl NeverSettles"
proof -
  let ?s = "loadImageFile example_env ''broken'' 1 example_state"
  have dec: "decodeImage example_env ''broken'' = None" by (simp add: example_env_def)
  note d = decode_failure_defaults(1-3) [OF dec]
    decode_failure_defaults(4) [OF dec, of 1 example_state]
    decode_failure_defaults(5) [OF dec, of 1 example_state]
  have lay: "selectedLayout ?s = Some (LAYOUTS ! 0)"
    by (simp add: loadImageFile_fields example_layout(1))
  have all: "\<forall>i<photoCount (LAYOUTS ! 0). images ?s i \<noteq> None"
    by (simp add: loadImageFile_fields example_layout(2) example_state_def)
  have btn: "\<not> btnComposeDisabled ?s"
    using all_loaded [OF all] by (simp add: loadImageFile_button [OF example_layout(1)])
  have one: "1 < photoCount (LAYOUTS ! 0)" by (simp add: example_layout(2))
  have "decodeImage example_env (dataURL \<lparr>dataURL = ''broken'', qualityWarning = None\<rparr>) = None"
    using dec by simp
  from compose_never_settles [OF lay all one d(4) this]
  have "compose example_env ?s = Inl NeverSettles" .
  with dec d btn show ?thesis by simp
qed

end
